theory Spec2Isabelle
  imports Main "HOL-Library.Word"
begin

section \<open>Strings of the Go runtime\<close>

text \<open>
  A Go string is a sequence of bytes; \<^typ>\<open>string\<close> (a list of 8-bit characters) is
  used for it. The functions of package \<open>strings\<close> that \<open>writer.go\<close> calls are
  embedded here: \<open>HasPrefix\<close>, \<open>Split\<close> with a one-byte separator and
  \<open>TrimSpace\<close>, the last one together with the UTF-8 decoder it relies on.
\<close>

definition HasPrefix :: "string \<Rightarrow> string \<Rightarrow> bool" where
  "HasPrefix s pre = (length pre \<le> length s \<and> take (length pre) s = pre)"

text \<open>
  \<open>strings.Split(s, sep)\<close> for a separator of one byte. As the loop of \<open>genSplit\<close>
  does, it looks for the first separator: when there is none the rest of the string is
  the last piece, otherwise the bytes before the separator are a piece and the loop goes
  on behind the separator. The result has one more piece than the string has separators
  and is never empty (\<open>Split("", sep)\<close> is the list holding the empty string).
\<close>

function Split :: "string \<Rightarrow> char \<Rightarrow> string list" where
  "Split s sep =
     (case dropWhile (\<lambda>c. c \<noteq> sep) s of
        [] \<Rightarrow> [s]
      | _ # rest \<Rightarrow> takeWhile (\<lambda>c. c \<noteq> sep) s # Split rest sep)"
  by pat_completeness auto
termination
proof (relation "measure (\<lambda>(s, sep). length s)")
  show "wf (measure (\<lambda>(s, sep). length s))" by simp
next
  fix s :: string and sep x rest
  assume "dropWhile (\<lambda>c. c \<noteq> sep) s = x # rest"
  then have "length (x # rest) \<le> length s"
    using length_dropWhile_le [of "\<lambda>c. c \<noteq> sep" s] by simp
  then show "((rest, sep), (s, sep)) \<in> measure (\<lambda>(s, sep). length s)" by simp
qed

declare Split.simps [simp del]

subsection \<open>UTF-8 decoding (package \<open>unicode/utf8\<close>)\<close>

definition RuneError :: nat where
  "RuneError = 0xFFFD"

definition RuneSelf :: nat where
  "RuneSelf = 0x80"

text \<open>
  \<open>utf8.DecodeRuneInString\<close>: the first rune of the string and its width in bytes;
  \<open>(RuneError, 0)\<close> on the empty string and \<open>(RuneError, 1)\<close> on an invalid
  encoding. The table \<open>first\<close> of the Go source gives, for a leading byte, the width
  of the encoding and the range \<open>lo..hi\<close> accepted for the second byte; the masks
  \<open>& 0x1F\<close>, \<open>& 0x0F\<close>, \<open>& 0x07\<close>, \<open>& 0x3F\<close> are written as \<open>mod\<close> and the
  shifts as multiplications.
\<close>

definition DecodeRuneInString :: "string \<Rightarrow> nat \<times> nat" where
  "DecodeRuneInString s =
     (let n = length s in
      if n < 1 then (RuneError, 0)
      else
        let s0 = (of_char (s ! 0) :: nat) in
        if s0 < RuneSelf then (s0, 1)
        else if s0 < 0xC2 \<or> 0xF4 < s0 then (RuneError, 1)
        else
          let sz = (if s0 < 0xE0 then 2 else if s0 < 0xF0 then 3 else 4 :: nat);
              lo = (if s0 = 0xE0 then 0xA0 else if s0 = 0xF0 then 0x90 else 0x80 :: nat);
              hi = (if s0 = 0xED then 0x9F else if s0 = 0xF4 then 0x8F else 0xBF :: nat)
          in
          if n < sz then (RuneError, 1)
          else
            let s1 = (of_char (s ! 1) :: nat) in
            if s1 < lo \<or> hi < s1 then (RuneError, 1)
            else if sz \<le> 2 then ((s0 mod 32) * 64 + s1 mod 64, 2)
            else
              let s2 = (of_char (s ! 2) :: nat) in
              if s2 < 0x80 \<or> 0xBF < s2 then (RuneError, 1)
              else if sz \<le> 3 then ((s0 mod 16) * 4096 + (s1 mod 64) * 64 + s2 mod 64, 3)
              else
                let s3 = (of_char (s ! 3) :: nat) in
                if s3 < 0x80 \<or> 0xBF < s3 then (RuneError, 1)
                else ((s0 mod 8) * 262144 + (s1 mod 64) * 4096 + (s2 mod 64) * 64
                        + s3 mod 64, 4))"

definition RuneStart :: "char \<Rightarrow> bool" where
  "RuneStart b = ((of_char b :: nat) div 64 \<noteq> 2)"

text \<open>
  The loop of \<open>utf8.DecodeLastRuneInString\<close> that backs up from \<open>start\<close> to the
  byte starting the last rune, no further than \<open>lim\<close>. The index is a Go \<open>int\<close>
  and may leave the loop as \<open>lim - 1\<close>, so it is an \<^typ>\<open>int\<close> here.
\<close>

function backup :: "string \<Rightarrow> int \<Rightarrow> int \<Rightarrow> int" where
  "backup s lim start =
     (if lim \<le> start then
        (if RuneStart (s ! nat start) then start else backup s lim (start - 1))
      else start)"
  by pat_completeness auto
termination
  by (relation "measure (\<lambda>(s, lim, start). nat (start - lim + 1))") auto

declare backup.simps [simp del]

definition DecodeLastRuneInString :: "string \<Rightarrow> nat \<times> nat" where
  "DecodeLastRuneInString s =
     (let end = length s in
      if end = 0 then (RuneError, 0)
      else
        let r = (of_char (s ! (end - 1)) :: nat) in
        if r < RuneSelf then (r, 1)
        else
          let lim = (if int end - 4 < 0 then 0 else int end - 4);
              start0 = backup s lim (int end - 2);
              start = (if start0 < 0 then 0 else nat start0);
              d = DecodeRuneInString (drop start s)
          in if start + snd d \<noteq> end then (RuneError, 1) else d)"

text \<open>\<open>unicode.IsSpace\<close>: the Latin-1 white space and the \<open>White_Space\<close> table.\<close>

definition IsSpace :: "nat \<Rightarrow> bool" where
  "IsSpace r =
     (if r \<le> 0xFF then
        r = 0x09 \<or> r = 0x0A \<or> r = 0x0B \<or> r = 0x0C \<or> r = 0x0D \<or> r = 0x20
          \<or> r = 0x85 \<or> r = 0xA0
      else
        r = 0x1680 \<or> (0x2000 \<le> r \<and> r \<le> 0x200A) \<or> r = 0x2028 \<or> r = 0x2029
          \<or> r = 0x202F \<or> r = 0x205F \<or> r = 0x3000)"

subsection \<open>Trimming (package \<open>strings\<close>)\<close>

text \<open>
  \<open>strings.TrimLeftFunc(s, f)\<close>: the \<open>range\<close> loop of \<open>indexFunc\<close> decodes one rune
  after the other and stops at the first one that \<open>f\<close> rejects; the string from there on
  is returned, the empty string when there is none.
\<close>

function TrimLeftFunc :: "string \<Rightarrow> (nat \<Rightarrow> bool) \<Rightarrow> string" where
  "TrimLeftFunc s f =
     (if s = [] then []
      else if f (fst (DecodeRuneInString s))
        then TrimLeftFunc (drop (snd (DecodeRuneInString s)) s) f
        else s)"
  by pat_completeness auto
termination
proof (relation "measure (\<lambda>(s, f). length s)")
  show "wf (measure (\<lambda>(s, f). length s))" by simp
next
  fix s :: string and f :: "nat \<Rightarrow> bool"
  assume "s \<noteq> []"
  then have "1 \<le> snd (DecodeRuneInString s)"
    by (cases s) (simp_all add: DecodeRuneInString_def Let_def)
  with \<open>s \<noteq> []\<close>
  show "((drop (snd (DecodeRuneInString s)) s, f), (s, f)) \<in> measure (\<lambda>(s, f). length s)"
    by simp
qed

declare TrimLeftFunc.simps [simp del]

text \<open>
  \<open>lastIndexFunc(s, f, false)\<close>: the loop decodes the last rune of \<open>s[0:i]\<close>, with
  \<open>i\<close> going down from \<open>len(s)\<close>, and returns the byte index where the last rune
  that \<open>f\<close> rejects starts; \<open>None\<close> stands for the \<open>-1\<close> of the source. The prefix
  \<open>s[0:i]\<close> is the argument here.
\<close>

function lastIndexFunc :: "string \<Rightarrow> (nat \<Rightarrow> bool) \<Rightarrow> nat option" where
  "lastIndexFunc s f =
     (if s = [] then None
      else if \<not> f (fst (DecodeLastRuneInString s))
        then Some (length s - snd (DecodeLastRuneInString s))
        else lastIndexFunc (take (length s - snd (DecodeLastRuneInString s)) s) f)"
  by pat_completeness auto
termination
proof (relation "measure (\<lambda>(s, f). length s)")
  show "wf (measure (\<lambda>(s, f). length s))" by simp
next
  fix s :: string and f :: "nat \<Rightarrow> bool"
  assume ne: "s \<noteq> []"
  define lim where "lim = (if int (length s) - 4 < 0 then 0 else int (length s) - 4)"
  define start0 where "start0 = backup s lim (int (length s) - 2)"
  define start where "start = (if start0 < 0 then 0 else nat start0)"
  have "backup s l i \<le> i" for l i
  proof (induction s l i rule: backup.induct)
    case (1 s l i)
    show ?case
    proof (cases "l \<le> i \<and> \<not> RuneStart (s ! nat i)")
      case True
      with 1 have "backup s l (i - 1) \<le> i - 1" by simp
      moreover from True have "backup s l i = backup s l (i - 1)"
        by (subst backup.simps) simp
      ultimately show ?thesis by simp
    next
      case False
      then show ?thesis by (subst backup.simps) auto
    qed
  qed
  then have "start0 \<le> int (length s) - 2" unfolding start0_def .
  with ne have lt: "start < length s" unfolding start_def by (cases s) auto
  have eq: "DecodeLastRuneInString s =
      (if of_char (s ! (length s - 1)) < RuneSelf then (of_char (s ! (length s - 1)), 1)
       else if start + snd (DecodeRuneInString (drop start s)) \<noteq> length s then (RuneError, 1)
       else DecodeRuneInString (drop start s))"
    using ne by (simp add: DecodeLastRuneInString_def Let_def lim_def start0_def start_def)
  from lt have "drop start s \<noteq> []" by simp
  then have "1 \<le> snd (DecodeRuneInString (drop start s))"
    by (cases "drop start s") (simp_all add: DecodeRuneInString_def Let_def)
  then have "1 \<le> snd (DecodeLastRuneInString s)" unfolding eq by simp
  with ne show "((take (length s - snd (DecodeLastRuneInString s)) s, f), (s, f))
      \<in> measure (\<lambda>(s, f). length s)"
    by (cases s) auto
qed

declare lastIndexFunc.simps [simp del]

definition TrimRightFunc :: "string \<Rightarrow> (nat \<Rightarrow> bool) \<Rightarrow> string" where
  "TrimRightFunc s f =
     (case lastIndexFunc s f of
        None \<Rightarrow> take 0 s
      | Some i \<Rightarrow>
          if RuneSelf \<le> of_char (s ! i)
          then take (i + snd (DecodeRuneInString (drop i s))) s
          else take (i + 1) s)"

definition TrimFunc :: "string \<Rightarrow> (nat \<Rightarrow> bool) \<Rightarrow> string" where
  "TrimFunc s f = TrimRightFunc (TrimLeftFunc s f) f"

text \<open>
  \<open>strings.TrimSpace(s)\<close> removes the leading and trailing white space, as Unicode
  defines it: \<open>TrimFunc(s, unicode.IsSpace)\<close>. (Recent versions of the library first
  skip ASCII white space byte by byte and fall back to this on the first byte that is not
  ASCII; the result is the same.)
\<close>

definition TrimSpace :: "string \<Rightarrow> string" where
  "TrimSpace s = TrimFunc s IsSpace"

text \<open>The table \<open>asciiSpace\<close> of package \<open>strings\<close>: the white space of ASCII.\<close>

definition asciiSpace :: "char \<Rightarrow> bool" where
  "asciiSpace c =
     (let b = (of_char c :: nat)
      in b = 0x09 \<or> b = 0x0A \<or> b = 0x0B \<or> b = 0x0C \<or> b = 0x0D \<or> b = 0x20)"

subsection \<open>Printing (package \<open>fmt\<close>)\<close>

text \<open>The decimal digits of a non-negative \<open>int\<close>, as \<open>%v\<close> prints it.\<close>

fun Itoa :: "nat \<Rightarrow> string" where
  "Itoa n =
     (if n < 10 then [char_of (48 + n)]
      else Itoa (n div 10) @ [char_of (48 + n mod 10)])"

declare Itoa.simps [simp del]

text \<open>
  \<open>fmt.Println\<close> writes its operands separated by single spaces and ends the line;
  the operands are given here already formatted.
\<close>

fun Sprint_operands :: "string list \<Rightarrow> string" where
  "Sprint_operands [] = []"
| "Sprint_operands [a] = a"
| "Sprint_operands (a # b # bs) = a @ '' '' @ Sprint_operands (b # bs)"

definition Sprintln :: "string list \<Rightarrow> string" where
  "Sprintln operands = Sprint_operands operands @ [CHR 0x0A]"

section \<open>The writer of \<open>lib/cloudwatchlogs/writer.go\<close>\<close>

subsection \<open>Errors\<close>

text \<open>
  A Go \<open>error\<close> is a value with a message. \<open>errInvalidWriter\<close> is the package's own
  error value; every other error comes from the AWS client and is known by its message
  only.
\<close>

datatype error = errInvalidWriter | awsError string

fun Error :: "error \<Rightarrow> string" where
  "Error errInvalidWriter = ''the writer was invalidated by another goroutine''"
| "Error (awsError msg) = msg"

subsection \<open>The token-rejection parser\<close>

text \<open>
  \<open>parseInvalidSequenceTokenException\<close> returns the token (\<open>None\<close> for the \<open>nil\<close>
  pointer) and, second, the lines it writes to standard output through
  \<open>fmt.Println\<close>, in order.
\<close>

definition parseInvalidSequenceTokenException :: "error \<Rightarrow> string option \<times> string list" where
  "parseInvalidSequenceTokenException err =
     (let msg = Error err;
          out1 = [Sprintln [''<<<'', msg]]
      in
      if \<not> HasPrefix msg ''InvalidSequenceTokenException:''
      then (None, out1 @ [Sprintln [''no prefix'']])
      else
        let lines = Split msg (CHR 0x0A);
            msg' = (if length lines \<noteq> 0 then lines ! 0 else msg);
            parts = Split msg' CHR '':''
        in
        if length parts < 3
        then (None, out1 @ [Sprintln [''bad parts count:'', Itoa (length parts)]])
        else
          let s = TrimSpace (parts ! 2)
          in (Some s, out1 @ [Sprintln [''>>>'', s]]))"

subsection \<open>Messages and the AWS client\<close>

text \<open>
  \<open>ecslogs.Message\<close> is declared in package \<open>lib\<close>. The writer uses its fields
  \<open>Group\<close>, \<open>Stream\<close> and \<open>Time\<close> only; the remaining fields are the extension
  part of the record. The type of \<open>Time\<close> is numeric (the writer assigns \<open>0\<close> to it)
  and has a method \<open>Milliseconds\<close>; the method and the method \<open>String\<close> of the
  message, which serializes it, are parameters of the functions below.
\<close>

record 't Message =
  Group :: string
  Stream :: string
  Time :: 't

text \<open>The structures of the AWS SDK; a pointer to a string is a \<^typ>\<open>string option\<close>.\<close>

record InputLogEvent =
  Message :: "string option"
  Timestamp :: "64 word option"

record PutLogEventsInput =
  LogEvents :: "InputLogEvent list"
  LogGroupName :: "string option"
  LogStreamName :: "string option"
  SequenceToken :: "string option"

record PutLogEventsOutput =
  NextSequenceToken :: "string option"

definition aws_String :: "string \<Rightarrow> string option" where
  "aws_String s = Some s"

definition aws_Int64 :: "64 word \<Rightarrow> 64 word option" where
  "aws_Int64 n = Some n"

definition aws_StringValue :: "string option \<Rightarrow> string" where
  "aws_StringValue p = (case p of None \<Rightarrow> [] | Some s \<Rightarrow> s)"

text \<open>
  What the writer does to the outside, in order: the calls of the client's
  \<open>PutLogEvents\<close> (with the input and with what the call returned), the calls of the
  parent's \<open>remove\<close>, and the lines printed on standard output. The type
  \<open>client\<close> of the parent and its method \<open>remove\<close> are declared in another file
  of the package; a call of \<open>remove\<close> is recorded with the client it is made on and
  its two arguments.
\<close>

datatype 'c call =
    PutLogEvents_call 'c PutLogEventsInput "error + PutLogEventsOutput"
  | remove_call 'c string string
  | Println_call string

text \<open>
  The writer. \<open>parent\<close> is the pointer to the client that owns the writer, \<open>None\<close>
  for \<open>nil\<close>. The mutex is not part of the model: the functions below describe one call
  running alone, which is what the lock makes of every call.
\<close>

record 'c writer =
  group :: string
  stream :: string
  token :: string
  parent :: "'c option"

text \<open>
  The retry loop of \<open>WriteMessageBatch\<close> (lines 68 to 97), together with the
  assignment that follows it. \<open>PutLogEvents c r input\<close> is the call
  \<open>w.parent.client.PutLogEvents\<close> on the client \<open>c\<close>: it returns an error or an
  output (the SDK returns an output whenever the error is \<open>nil\<close>, so that line 99
  reads a valid pointer), and the next state of the remote service, whose state is \<open>r\<close>.
  The result is the error returned to the caller (\<open>None\<close> for \<open>nil\<close>), the writer
  and the remote state afterwards, and the calls made, those of this iteration before
  those of the following ones.
\<close>

function attempts ::
  "('c \<Rightarrow> 'r \<Rightarrow> PutLogEventsInput \<Rightarrow> (error + PutLogEventsOutput) \<times> 'r) \<Rightarrow> 'c \<Rightarrow> 'c writer
    \<Rightarrow> InputLogEvent list \<Rightarrow> nat \<Rightarrow> string option \<Rightarrow> 'r
    \<Rightarrow> error option \<times> 'c writer \<times> 'r \<times> 'c call list" where
  "attempts PutLogEvents c w events attempt tok r =
     (let input = \<lparr>LogEvents = events,
                   LogGroupName = aws_String (group w),
                   LogStreamName = aws_String (stream w),
                   SequenceToken = tok\<rparr>;
          res = PutLogEvents c r input;
          calls1 = [PutLogEvents_call c input (fst res)]
      in
      case fst res of
        Inr result \<Rightarrow>
          (None, w\<lparr>token := aws_StringValue (NextSequenceToken result)\<rparr>, snd res, calls1)
      | Inl err \<Rightarrow>
          let parsed = parseInvalidSequenceTokenException err;
              calls2 = calls1 @ map Println_call (snd parsed)
          in
          if attempt < 3 \<and> fst parsed \<noteq> None
          then
            (case attempts PutLogEvents c w events (attempt + 1) (fst parsed) (snd res) of
               (e, w', r', rest) \<Rightarrow> (e, w', r', calls2 @ rest))
          else (Some err, w\<lparr>parent := None\<rparr>, snd res,
                calls2 @ [remove_call c (group w) (stream w)]))"
  by pat_completeness auto
termination
  by (relation "measure (\<lambda>(PutLogEvents, c, w, events, attempt, tok, r). 3 - attempt)") auto

declare attempts.simps [simp del]

text \<open>The body of the loop over the batch (lines 39 to 50), for one message.\<close>

definition event_of ::
  "(('t::zero, 'm) Message_scheme \<Rightarrow> string) \<Rightarrow> ('t \<Rightarrow> 64 word) \<Rightarrow> ('t, 'm) Message_scheme
    \<Rightarrow> InputLogEvent" where
  "event_of String Milliseconds msg =
     (let ts = Time msg;
          msg1 = msg\<lparr>Group := []\<rparr>;
          msg2 = msg1\<lparr>Stream := []\<rparr>;
          msg3 = msg2\<lparr>Time := 0\<rparr>
      in \<lparr>Message = aws_String (String msg3), Timestamp = aws_Int64 (Milliseconds ts)\<rparr>)"

definition WriteMessageBatch ::
  "(('t::zero, 'm) Message_scheme \<Rightarrow> string) \<Rightarrow> ('t \<Rightarrow> 64 word)
    \<Rightarrow> ('c \<Rightarrow> 'r \<Rightarrow> PutLogEventsInput \<Rightarrow> (error + PutLogEventsOutput) \<times> 'r)
    \<Rightarrow> 'c writer \<Rightarrow> ('t, 'm) Message_scheme list \<Rightarrow> 'r
    \<Rightarrow> error option \<times> 'c writer \<times> 'r \<times> 'c call list" where
  "WriteMessageBatch String Milliseconds PutLogEvents w batch r =
     (if length batch = 0 then (None, w, r, [])
      else
        let events = map (event_of String Milliseconds) batch
        in
        case parent w of
          None \<Rightarrow> (Some errInvalidWriter, w, r, [])
        | Some c \<Rightarrow>
            attempts PutLogEvents c w events 1
              (if length (token w) \<noteq> 0 then aws_String (token w) else None) r)"

definition WriteMessage ::
  "(('t::zero, 'm) Message_scheme \<Rightarrow> string) \<Rightarrow> ('t \<Rightarrow> 64 word)
    \<Rightarrow> ('c \<Rightarrow> 'r \<Rightarrow> PutLogEventsInput \<Rightarrow> (error + PutLogEventsOutput) \<times> 'r)
    \<Rightarrow> 'c writer \<Rightarrow> ('t, 'm) Message_scheme \<Rightarrow> 'r
    \<Rightarrow> error option \<times> 'c writer \<times> 'r \<times> 'c call list" where
  "WriteMessage String Milliseconds PutLogEvents w msg r =
     WriteMessageBatch String Milliseconds PutLogEvents w [msg] r"


text \<open>
  A caller that makes one call of \<open>WriteMessageBatch\<close> after the other on the same
  writer, one for each batch of the list. The result lists, for each call, the error it
  returned and the calls it made.
\<close>

fun successive_calls ::
  "(('t::zero, 'm) Message_scheme \<Rightarrow> string) \<Rightarrow> ('t \<Rightarrow> 64 word)
    \<Rightarrow> ('c \<Rightarrow> 'r \<Rightarrow> PutLogEventsInput \<Rightarrow> (error + PutLogEventsOutput) \<times> 'r)
    \<Rightarrow> 'c writer \<Rightarrow> ('t, 'm) Message_scheme list list \<Rightarrow> 'r
    \<Rightarrow> (error option \<times> 'c call list) list \<times> 'c writer \<times> 'r" where
  "successive_calls String Milliseconds PutLogEvents w [] r = ([], w, r)"
| "successive_calls String Milliseconds PutLogEvents w (batch # batches) r =
     (case WriteMessageBatch String Milliseconds PutLogEvents w batch r of
        (e, w1, r1, cs) \<Rightarrow>
          (case successive_calls String Milliseconds PutLogEvents w1 batches r1 of
             (outs, w2, r2) \<Rightarrow> ((e, cs) # outs, w2, r2)))"

subsection \<open>Reading the calls\<close>

text \<open>
  The calls of \<open>PutLogEvents\<close> among the calls made, each with its input and its
  result; the calls of \<open>remove\<close>; the lines printed.
\<close>

fun put_calls :: "'c call list \<Rightarrow> (PutLogEventsInput \<times> (error + PutLogEventsOutput)) list" where
  "put_calls [] = []"
| "put_calls (PutLogEvents_call c input res # cs) = (input, res) # put_calls cs"
| "put_calls (remove_call c g s # cs) = put_calls cs"
| "put_calls (Println_call l # cs) = put_calls cs"

fun remove_calls :: "'c call list \<Rightarrow> ('c \<times> string \<times> string) list" where
  "remove_calls [] = []"
| "remove_calls (PutLogEvents_call c input res # cs) = remove_calls cs"
| "remove_calls (remove_call c g s # cs) = (c, g, s) # remove_calls cs"
| "remove_calls (Println_call l # cs) = remove_calls cs"

fun printed :: "'c call list \<Rightarrow> string list" where
  "printed [] = []"
| "printed (PutLogEvents_call c input res # cs) = printed cs"
| "printed (remove_call c g s # cs) = printed cs"
| "printed (Println_call l # cs) = l # printed cs"

text \<open>The input of \<open>PutLogEvents\<close> that the loop builds from the writer.\<close>

definition request :: "'c writer \<Rightarrow> InputLogEvent list \<Rightarrow> string option \<Rightarrow> PutLogEventsInput" where
  "request w events tok =
     \<lparr>LogEvents = events, LogGroupName = Some (group w), LogStreamName = Some (stream w),
      SequenceToken = tok\<rparr>"

text \<open>
  The answers of the client to the first, the second and the third attempt of a call,
  the second and the third being made with the tokens \<open>t1\<close> and \<open>t2\<close>, each on the
  state of the remote service that the attempt before has left.
\<close>

definition first_answer ::
  "('c \<Rightarrow> 'r \<Rightarrow> PutLogEventsInput \<Rightarrow> (error + PutLogEventsOutput) \<times> 'r) \<Rightarrow> 'c \<Rightarrow> 'c writer
    \<Rightarrow> InputLogEvent list \<Rightarrow> string option \<Rightarrow> 'r \<Rightarrow> (error + PutLogEventsOutput) \<times> 'r" where
  "first_answer PutLogEvents c w events tok r = PutLogEvents c r (request w events tok)"

definition second_answer ::
  "('c \<Rightarrow> 'r \<Rightarrow> PutLogEventsInput \<Rightarrow> (error + PutLogEventsOutput) \<times> 'r) \<Rightarrow> 'c \<Rightarrow> 'c writer
    \<Rightarrow> InputLogEvent list \<Rightarrow> string option \<Rightarrow> 'r \<Rightarrow> string
    \<Rightarrow> (error + PutLogEventsOutput) \<times> 'r" where
  "second_answer PutLogEvents c w events tok r t1 =
     PutLogEvents c (snd (first_answer PutLogEvents c w events tok r))
       (request w events (Some t1))"

definition third_answer ::
  "('c \<Rightarrow> 'r \<Rightarrow> PutLogEventsInput \<Rightarrow> (error + PutLogEventsOutput) \<times> 'r) \<Rightarrow> 'c \<Rightarrow> 'c writer
    \<Rightarrow> InputLogEvent list \<Rightarrow> string option \<Rightarrow> 'r \<Rightarrow> string \<Rightarrow> string
    \<Rightarrow> (error + PutLogEventsOutput) \<times> 'r" where
  "third_answer PutLogEvents c w events tok r t1 t2 =
     PutLogEvents c (snd (second_answer PutLogEvents c w events tok r t1))
       (request w events (Some t2))"

text \<open>
  The answers of the client to a list of inputs, given one after the other from the state
  \<open>r\<close> of the remote service on, and the state afterwards.
\<close>

fun answers ::
  "('c \<Rightarrow> 'r \<Rightarrow> PutLogEventsInput \<Rightarrow> (error + PutLogEventsOutput) \<times> 'r) \<Rightarrow> 'c \<Rightarrow> 'r
    \<Rightarrow> PutLogEventsInput list \<Rightarrow> (error + PutLogEventsOutput) list \<times> 'r" where
  "answers PutLogEvents c r [] = ([], r)"
| "answers PutLogEvents c r (input # inputs) =
     (case answers PutLogEvents c (snd (PutLogEvents c r input)) inputs of
        (results, r') \<Rightarrow> (fst (PutLogEvents c r input) # results, r'))"

subsection \<open>A client for worked examples\<close>

text \<open>
  A client that answers from a script: the state of the remote service is the list of
  the answers still to be given, and a call takes the first one. When the script is used
  up the call fails with an error that carries no token.
\<close>

definition scripted ::
  "nat \<Rightarrow> (error + PutLogEventsOutput) list \<Rightarrow> PutLogEventsInput
    \<Rightarrow> (error + PutLogEventsOutput) \<times> (error + PutLogEventsOutput) list" where
  "scripted c r input =
     (case r of [] \<Rightarrow> (Inl (awsError ''ServiceUnavailable''), []) | x # xs \<Rightarrow> (x, xs))"

text \<open>
  Messages whose \<open>Time\<close> is a number of microseconds and whose serialization shows the
  fields \<open>Group\<close> and \<open>Stream\<close>; a writer that is valid and has no token yet.
\<close>

definition example_String :: "int Message \<Rightarrow> string" where
  "example_String m = Group m @ ''|'' @ Stream m @ ''|hello''"

definition example_Milliseconds :: "int \<Rightarrow> 64 word" where
  "example_Milliseconds t = word_of_int (t div 1000)"

definition example_message :: "int Message" where
  "example_message = \<lparr>Group = ''app'', Stream = ''web'', Time = 5000\<rparr>"

definition example_writer :: "nat writer" where
  "example_writer = \<lparr>group = ''app'', stream = ''web'', token = [], parent = Some 7\<rparr>"

definition example_event :: InputLogEvent where
  "example_event = \<lparr>Message = Some ''||hello'', Timestamp = Some 5\<rparr>"

definition stale :: "string \<Rightarrow> error + PutLogEventsOutput" where
  "stale t = Inl (awsError (''InvalidSequenceTokenException: stale: '' @ t))"

definition three_rejections :: "nat call list" where
  "three_rejections =
     [PutLogEvents_call 7 (request example_writer [example_event] None) (stale ''T1''),
      Println_call (''<<< InvalidSequenceTokenException: stale: T1'' @ [CHR 0x0A]),
      Println_call (''>>> T1'' @ [CHR 0x0A]),
      PutLogEvents_call 7 (request example_writer [example_event] (Some ''T1'')) (stale ''T2''),
      Println_call (''<<< InvalidSequenceTokenException: stale: T2'' @ [CHR 0x0A]),
      Println_call (''>>> T2'' @ [CHR 0x0A]),
      PutLogEvents_call 7 (request example_writer [example_event] (Some ''T2'')) (stale ''T3''),
      Println_call (''<<< InvalidSequenceTokenException: stale: T3'' @ [CHR 0x0A]),
      Println_call (''>>> T3'' @ [CHR 0x0A]),
      remove_call 7 ''app'' ''web'']"

definition unrelated_failure :: "nat call list" where
  "unrelated_failure =
     [PutLogEvents_call 7 (request example_writer [example_event] None)
        (Inl (awsError ''ServiceUnavailable'')),
      Println_call (''<<< ServiceUnavailable'' @ [CHR 0x0A]),
      Println_call (''no prefix'' @ [CHR 0x0A]),
      remove_call 7 ''app'' ''web'']"

definition later_message :: "int Message" where
  "later_message = \<lparr>Group = ''app'', Stream = ''web'', Time = 7250\<rparr>"

definition later_event :: InputLogEvent where
  "later_event = \<lparr>Message = Some ''||hello'', Timestamp = Some 7\<rparr>"

text \<open>The rejection message of the stale-token example.\<close>

definition fooError :: string where
  "fooError = ''InvalidSequenceTokenException: fooError: expected sequence token is: ABC123''"

text \<open>Messages of errors for the parser: a rejection as AWS words it, and others.\<close>

definition aws_rejection :: string where
  "aws_rejection =
     ''InvalidSequenceTokenException: The given sequenceToken is invalid. '' @
     ''The next expected sequenceToken is: 49545'' @ [CHR 0x0A, CHR 0x09] @
     ''status code: 400, request id: 12''"

definition two_line_rejection :: string where
  "two_line_rejection =
     ''InvalidSequenceTokenException: bad token'' @ [CHR 0x0A] @ ''next: token: 123''"

definition unrelated_error :: string where
  "unrelated_error = ''ResourceNotFoundException: The specified log group does not exist.''"

section \<open>Properties\<close>

subsection \<open>Splitting\<close>

lemma Split_Nil: "Split [] sep = [[]]"
  by (subst Split.simps) simp

lemma Split_not_Nil: "Split s sep \<noteq> []"
  by (subst Split.simps) (simp split: list.splits)

lemma Split_Cons:
  "Split (c # cs) sep =
     (if c = sep then [] # Split cs sep else (c # hd (Split cs sep)) # tl (Split cs sep))"
proof (cases "c = sep")
  case True
  then show ?thesis by (subst Split.simps) simp
next
  case False
  show ?thesis
  proof (cases "dropWhile (\<lambda>c. c \<noteq> sep) cs")
    case Nil
    have whole: "Split (c # cs) sep = [c # cs]"
      by (subst Split.simps) (simp add: False Nil)
    have rest: "Split cs sep = [cs]"
      by (subst Split.simps) (simp add: Nil)
    from False show ?thesis by (simp add: whole rest)
  next
    case (Cons x rest)
    have whole: "Split (c # cs) sep = (c # takeWhile (\<lambda>c. c \<noteq> sep) cs) # Split rest sep"
      by (subst Split.simps) (simp add: False Cons)
    have tail: "Split cs sep = takeWhile (\<lambda>c. c \<noteq> sep) cs # Split rest sep"
      by (subst Split.simps) (simp add: Cons)
    from False show ?thesis by (simp add: whole tail)
  qed
qed

lemma length_Split: "length (Split s sep) = Suc (length (filter (\<lambda>c. c = sep) s))"
  using Split_not_Nil [of _ sep]
  by (induction s) (auto simp add: Split_Nil Split_Cons)

lemma Split_first: "Split s sep ! 0 = takeWhile (\<lambda>c. c \<noteq> sep) s"
  by (subst Split.simps) (simp split: list.splits add: takeWhile_eq_all_conv [THEN iffD2] dropWhile_eq_Nil_conv)

lemma Split_no_sep: "p \<in> set (Split s sep) \<Longrightarrow> sep \<notin> set p"
proof (induction s arbitrary: p)
  case Nil
  then show ?case by (simp add: Split_Nil)
next
  case (Cons c cs)
  from Split_not_Nil [of cs sep] obtain q qs where q: "Split cs sep = q # qs"
    by (cases "Split cs sep") auto
  with Cons show ?case
    by (auto simp add: Split_Cons split: if_splits)
qed

lemma Split_join: "concat (map (\<lambda>p. p @ [sep]) (Split s sep)) = s @ [sep]"
proof (induction s)
  case Nil
  then show ?case by (simp add: Split_Nil)
next
  case (Cons c cs)
  from Split_not_Nil [of cs sep] obtain q qs where q: "Split cs sep = q # qs"
    by (cases "Split cs sep") auto
  with Cons show ?case
    by (auto simp add: Split_Cons)
qed

subsection \<open>Trimming strings of ASCII\<close>

lemma IsSpace_ascii: "(of_char c :: nat) < 128 \<Longrightarrow> IsSpace (of_char c) = asciiSpace c"
  by (auto simp add: IsSpace_def asciiSpace_def Let_def)

lemma DecodeRuneInString_ascii:
  "(of_char c :: nat) < 128 \<Longrightarrow> DecodeRuneInString (c # cs) = (of_char c, 1)"
  by (simp add: DecodeRuneInString_def RuneSelf_def)

lemma DecodeLastRuneInString_ascii:
  "(of_char c :: nat) < 128 \<Longrightarrow> DecodeLastRuneInString (cs @ [c]) = (of_char c, 1)"
  by (simp add: DecodeLastRuneInString_def RuneSelf_def)

lemma TrimLeftFunc_ascii:
  "\<forall>c \<in> set s. (of_char c :: nat) < 128
    \<Longrightarrow> TrimLeftFunc s f = dropWhile (\<lambda>c. f (of_char c)) s"
proof (induction s)
  case Nil
  then show ?case by (subst TrimLeftFunc.simps) simp
next
  case (Cons c cs)
  then have c: "(of_char c :: nat) < 128" and IH: "TrimLeftFunc cs f = dropWhile (\<lambda>c. f (of_char c)) cs"
    by simp_all
  show ?case
    by (subst TrimLeftFunc.simps) (simp add: DecodeRuneInString_ascii [OF c] IH)
qed

lemma lastIndexFunc_ascii:
  "\<forall>c \<in> set s. (of_char c :: nat) < 128
    \<Longrightarrow> lastIndexFunc s f =
        (if rev (dropWhile (\<lambda>c. f (of_char c)) (rev s)) = [] then None
         else Some (length (rev (dropWhile (\<lambda>c. f (of_char c)) (rev s))) - 1))"
proof (induction s rule: rev_induct)
  case Nil
  then show ?case by (subst lastIndexFunc.simps) simp
next
  case (snoc c cs)
  then have c: "(of_char c :: nat) < 128"
    and IH: "lastIndexFunc cs f =
        (if rev (dropWhile (\<lambda>c. f (of_char c)) (rev cs)) = [] then None
         else Some (length (rev (dropWhile (\<lambda>c. f (of_char c)) (rev cs))) - 1))"
    by simp_all
  show ?case
    by (subst lastIndexFunc.simps) (simp add: DecodeLastRuneInString_ascii [OF c] IH)
qed

lemma take_length_rev_dropWhile:
  "take (length (dropWhile P (rev s))) s = rev (dropWhile P (rev s))"
proof -
  have "rev s = takeWhile P (rev s) @ dropWhile P (rev s)" by simp
  then have "s = rev (dropWhile P (rev s)) @ rev (takeWhile P (rev s))"
    by (metis rev_append rev_rev_ident)
  then have "take (length (rev (dropWhile P (rev s)))) s = rev (dropWhile P (rev s))"
    by (metis append_eq_conv_conj)
  then show ?thesis by simp
qed

lemma TrimRightFunc_ascii:
  assumes "\<forall>c \<in> set s. (of_char c :: nat) < 128"
  shows "TrimRightFunc s f = rev (dropWhile (\<lambda>c. f (of_char c)) (rev s))"
proof (cases "dropWhile (\<lambda>c. f (of_char c)) (rev s) = []")
  case True
  with assms show ?thesis by (simp add: TrimRightFunc_def lastIndexFunc_ascii)
next
  case False
  let ?t = "dropWhile (\<lambda>c. f (of_char c)) (rev s)"
  from False have pos: "0 < length ?t" by (simp del: dropWhile_eq_Nil_conv)
  have le: "length ?t \<le> length s" using length_dropWhile_le [of _ "rev s"] by simp
  from pos le have "length ?t - 1 < length s" by arith
  with assms have "(of_char (s ! (length ?t - 1)) :: nat) < 128" by simp
  with assms False pos show ?thesis
    by (simp add: TrimRightFunc_def lastIndexFunc_ascii RuneSelf_def take_length_rev_dropWhile)
qed

lemma TrimSpace_ascii:
  assumes "\<forall>c \<in> set s. (of_char c :: nat) < 128"
  shows "TrimSpace s = rev (dropWhile asciiSpace (rev (dropWhile asciiSpace s)))"
proof -
  have eq: "dropWhile (\<lambda>c. IsSpace (of_char c)) xs = dropWhile asciiSpace xs"
    if "\<forall>c \<in> set xs. (of_char c :: nat) < 128" for xs
    using that by (intro dropWhile_cong) (simp_all add: IsSpace_ascii)
  have left: "TrimLeftFunc s IsSpace = dropWhile asciiSpace s"
    using assms by (simp add: TrimLeftFunc_ascii eq)
  have sub: "\<forall>c \<in> set (dropWhile asciiSpace s). (of_char c :: nat) < 128"
    using assms set_dropWhileD by fastforce
  then have "\<forall>c \<in> set (rev (dropWhile asciiSpace s)). (of_char c :: nat) < 128" by simp
  from eq [OF this] TrimRightFunc_ascii [OF sub, of IsSpace] left
  show ?thesis by (simp add: TrimSpace_def TrimFunc_def)
qed

subsection \<open>Reading the calls\<close>

lemma put_calls_append [simp]: "put_calls (xs @ ys) = put_calls xs @ put_calls ys"
  by (induction xs rule: put_calls.induct) simp_all

lemma remove_calls_append [simp]: "remove_calls (xs @ ys) = remove_calls xs @ remove_calls ys"
  by (induction xs rule: remove_calls.induct) simp_all

lemma printed_append [simp]: "printed (xs @ ys) = printed xs @ printed ys"
  by (induction xs rule: printed.induct) simp_all

lemma put_calls_Println [simp]: "put_calls (map Println_call ls) = []"
  by (induction ls) simp_all

lemma remove_calls_Println [simp]: "remove_calls (map Println_call ls) = []"
  by (induction ls) simp_all

lemma printed_Println [simp]: "printed (map Println_call ls) = ls"
  by (induction ls) simp_all

subsection \<open>One iteration of the retry loop\<close>

lemma attempts_success:
  assumes "fst (PutLogEvents c r (request w events tok)) = Inr result"
  shows "attempts PutLogEvents c w events attempt tok r =
    (None, w\<lparr>token := aws_StringValue (NextSequenceToken result)\<rparr>,
     snd (PutLogEvents c r (request w events tok)),
     [PutLogEvents_call c (request w events tok) (Inr result)])"
  using assms by (subst attempts.simps) (simp add: request_def aws_String_def Let_def)

lemma attempts_giveup:
  assumes "fst (PutLogEvents c r (request w events tok)) = Inl err"
    and "\<not> (attempt < 3 \<and> fst (parseInvalidSequenceTokenException err) \<noteq> None)"
  shows "attempts PutLogEvents c w events attempt tok r =
    (Some err, w\<lparr>parent := None\<rparr>, snd (PutLogEvents c r (request w events tok)),
     PutLogEvents_call c (request w events tok) (Inl err)
       # map Println_call (snd (parseInvalidSequenceTokenException err))
       @ [remove_call c (group w) (stream w)])"
  using assms by (subst attempts.simps) (auto simp add: request_def aws_String_def Let_def)

lemma attempts_retry:
  assumes "fst (PutLogEvents c r (request w events tok)) = Inl err"
    and "attempt < 3" and "fst (parseInvalidSequenceTokenException err) = Some t"
    and "attempts PutLogEvents c w events (attempt + 1) (Some t)
           (snd (PutLogEvents c r (request w events tok))) = (e, w', r', rest)"
  shows "attempts PutLogEvents c w events attempt tok r =
    (e, w', r',
     PutLogEvents_call c (request w events tok) (Inl err)
       # map Println_call (snd (parseInvalidSequenceTokenException err)) @ rest)"
  using assms by (subst attempts.simps) (simp add: request_def aws_String_def Let_def)

subsection \<open>Induction over the iterations\<close>

text \<open>
  Every result of the loop comes from one of three iterations: one whose call succeeds,
  one that gives up, and one that is followed by another attempt.
\<close>

lemma attempts_induct [consumes 1, case_names success giveup retry]:
  assumes run: "attempts PutLogEvents c w events attempt tok r = (e, w', r', cs)"
    and success: "\<And>attempt tok r result.
        fst (PutLogEvents c r (request w events tok)) = Inr result \<Longrightarrow>
        Q attempt tok r None (w\<lparr>token := aws_StringValue (NextSequenceToken result)\<rparr>)
          (snd (PutLogEvents c r (request w events tok)))
          [PutLogEvents_call c (request w events tok) (Inr result)]"
    and giveup: "\<And>attempt tok r err.
        fst (PutLogEvents c r (request w events tok)) = Inl err \<Longrightarrow>
        \<not> (attempt < 3 \<and> fst (parseInvalidSequenceTokenException err) \<noteq> None) \<Longrightarrow>
        Q attempt tok r (Some err) (w\<lparr>parent := None\<rparr>)
          (snd (PutLogEvents c r (request w events tok)))
          (PutLogEvents_call c (request w events tok) (Inl err)
            # map Println_call (snd (parseInvalidSequenceTokenException err))
            @ [remove_call c (group w) (stream w)])"
    and retry: "\<And>attempt tok r err t e w' r' rest.
        fst (PutLogEvents c r (request w events tok)) = Inl err \<Longrightarrow>
        attempt < 3 \<Longrightarrow>
        fst (parseInvalidSequenceTokenException err) = Some t \<Longrightarrow>
        attempts PutLogEvents c w events (attempt + 1) (Some t)
          (snd (PutLogEvents c r (request w events tok))) = (e, w', r', rest) \<Longrightarrow>
        Q (attempt + 1) (Some t) (snd (PutLogEvents c r (request w events tok))) e w' r' rest \<Longrightarrow>
        Q attempt tok r e w' r'
          (PutLogEvents_call c (request w events tok) (Inl err)
            # map Println_call (snd (parseInvalidSequenceTokenException err)) @ rest)"
  shows "Q attempt tok r e w' r' cs"
  using run
proof (induction "3 - attempt" arbitrary: attempt tok r e w' r' cs)
  case 0
  then have ge: "\<not> attempt < 3" by simp
  show ?case
  proof (cases "fst (PutLogEvents c r (request w events tok))")
    case (Inr result)
    from attempts_success [where PutLogEvents = PutLogEvents and attempt = attempt, OF Inr]
      "0.prems" success [OF Inr, of attempt]
    show ?thesis by simp
  next
    case (Inl err)
    from ge have no: "\<not> (attempt < 3 \<and> fst (parseInvalidSequenceTokenException err) \<noteq> None)"
      by simp
    from attempts_giveup [where PutLogEvents = PutLogEvents, OF Inl no]
      "0.prems" giveup [OF Inl no]
    show ?thesis by simp
  qed
next
  case (Suc k)
  then have lt: "attempt < 3" and k: "k = 3 - (attempt + 1)" by simp_all
  show ?case
  proof (cases "fst (PutLogEvents c r (request w events tok))")
    case (Inr result)
    from attempts_success [where PutLogEvents = PutLogEvents and attempt = attempt, OF Inr]
      Suc.prems success [OF Inr, of attempt]
    show ?thesis by simp
  next
    case (Inl err)
    show ?thesis
    proof (cases "fst (parseInvalidSequenceTokenException err)")
      case None
      then have no: "\<not> (attempt < 3 \<and> fst (parseInvalidSequenceTokenException err) \<noteq> None)"
        by simp
      from attempts_giveup [where PutLogEvents = PutLogEvents, OF Inl no]
        Suc.prems giveup [OF Inl no]
      show ?thesis by simp
    next
      case (Some t)
      obtain e1 w1 r1 rest where
        rec: "attempts PutLogEvents c w events (attempt + 1) (Some t)
                (snd (PutLogEvents c r (request w events tok))) = (e1, w1, r1, rest)"
        by (metis prod_cases4)
      from Suc.hyps(1) [OF k rec]
      have "Q (attempt + 1) (Some t) (snd (PutLogEvents c r (request w events tok))) e1 w1 r1 rest" .
      from retry [OF Inl lt Some rec this]
        attempts_retry [where PutLogEvents = PutLogEvents, OF Inl lt Some rec] Suc.prems
      show ?thesis by simp
    qed
  qed
qed

subsection \<open>What the loop guarantees\<close>

lemma attempts_bound:
  assumes "attempts PutLogEvents c w events attempt tok r = (e, w', r', cs)"
  shows "put_calls cs \<noteq> [] \<and> length (put_calls cs) \<le> (if attempt < 3 then 4 - attempt else 1)"
  using assms
  by (induction attempt tok r e w' r' cs rule: attempts_induct) (auto split: if_splits)

lemma attempts_requests:
  assumes "attempts PutLogEvents c w events attempt tok r = (e, w', r', cs)"
  shows "fst (hd (put_calls cs)) = request w events tok
       \<and> (\<forall>x \<in> set (put_calls cs). \<exists>tok'. fst x = request w events tok')"
  using assms by (induction attempt tok r e w' r' cs rule: attempts_induct) auto

lemma attempts_outcome:
  assumes "attempts PutLogEvents c w events attempt tok r = (e, w', r', cs)"
  shows "case e of
           None \<Rightarrow>
             (\<exists>out. snd (last (put_calls cs)) = Inr out
                \<and> w' = w\<lparr>token := aws_StringValue (NextSequenceToken out)\<rparr>)
             \<and> remove_calls cs = []
         | Some err \<Rightarrow>
             snd (last (put_calls cs)) = Inl err \<and> w' = w\<lparr>parent := None\<rparr>
             \<and> remove_calls cs = [(c, group w, stream w)]
             \<and> last cs = remove_call c (group w) (stream w)
             \<and> (fst (parseInvalidSequenceTokenException err) = None
                  \<or> 3 \<le> attempt + (length (put_calls cs) - 1))"
  using assms
proof (induction attempt tok r e w' r' cs rule: attempts_induct)
  case (success attempt tok r result)
  then show ?case by simp
next
  case (giveup attempt tok r err)
  then show ?case by auto
next
  case (retry attempt tok r err t e w' r' rest)
  from attempts_bound [OF retry(4)] have ne: "put_calls rest \<noteq> []" by simp
  then have "rest \<noteq> []" and "0 < length (put_calls rest)" by auto
  with retry(5) ne show ?case by (cases e) auto
qed



lemma attempts_answers:
  assumes "attempts PutLogEvents c w events attempt tok r = (e, w', r', cs)"
  shows "answers PutLogEvents c r (map fst (put_calls cs)) = (map snd (put_calls cs), r')"
  using assms by (induction attempt tok r e w' r' cs rule: attempts_induct) auto

lemma attempts_success_keeps:
  assumes "attempts PutLogEvents c w events attempt tok r = (None, w', r', cs)"
  shows "remove_calls cs = [] \<and> parent w' = parent w"
  using attempts_outcome [OF assms] by auto

lemma giveup_at_first:
  assumes first: "fst (PutLogEvents c r (request w events tok)) = Inl err1"
    and none: "fst (parseInvalidSequenceTokenException err1) = None"
  shows "attempts PutLogEvents c w events 1 tok r =
    (Some err1, w\<lparr>parent := None\<rparr>, snd (PutLogEvents c r (request w events tok)),
     PutLogEvents_call c (request w events tok) (Inl err1)
       # map Println_call (snd (parseInvalidSequenceTokenException err1))
       @ [remove_call c (group w) (stream w)])"
  using none by (intro attempts_giveup [where PutLogEvents = PutLogEvents, OF first]) simp

lemma giveup_at_second:
  assumes first: "fst (PutLogEvents c r (request w events tok)) = Inl err1"
    and tok1: "fst (parseInvalidSequenceTokenException err1) = Some t1"
    and second: "fst (PutLogEvents c (snd (PutLogEvents c r (request w events tok)))
                       (request w events (Some t1))) = Inl err2"
    and none: "fst (parseInvalidSequenceTokenException err2) = None"
  shows "attempts PutLogEvents c w events 1 tok r =
    (Some err2, w\<lparr>parent := None\<rparr>,
     snd (PutLogEvents c (snd (PutLogEvents c r (request w events tok)))
            (request w events (Some t1))),
     PutLogEvents_call c (request w events tok) (Inl err1)
       # map Println_call (snd (parseInvalidSequenceTokenException err1))
       @ PutLogEvents_call c (request w events (Some t1)) (Inl err2)
       # map Println_call (snd (parseInvalidSequenceTokenException err2))
       @ [remove_call c (group w) (stream w)])"
proof -
  have no: "\<not> (1 + 1 < (3 :: nat) \<and> fst (parseInvalidSequenceTokenException err2) \<noteq> None)"
    using none by simp
  have lt: "(1 :: nat) < 3" by simp
  note last = attempts_giveup [where PutLogEvents = PutLogEvents and attempt = "1 + 1",
      OF second no]
  from attempts_retry [where PutLogEvents = PutLogEvents, OF first lt tok1 last]
  show ?thesis .
qed

lemma giveup_at_third:
  assumes first: "fst (PutLogEvents c r (request w events tok)) = Inl err1"
    and tok1: "fst (parseInvalidSequenceTokenException err1) = Some t1"
    and second: "fst (PutLogEvents c (snd (PutLogEvents c r (request w events tok)))
                       (request w events (Some t1))) = Inl err2"
    and tok2: "fst (parseInvalidSequenceTokenException err2) = Some t2"
    and third: "fst (PutLogEvents c
                       (snd (PutLogEvents c (snd (PutLogEvents c r (request w events tok)))
                               (request w events (Some t1))))
                       (request w events (Some t2))) = Inl err3"
  shows "attempts PutLogEvents c w events 1 tok r =
    (Some err3, w\<lparr>parent := None\<rparr>,
     snd (PutLogEvents c
            (snd (PutLogEvents c (snd (PutLogEvents c r (request w events tok)))
                    (request w events (Some t1))))
            (request w events (Some t2))),
     PutLogEvents_call c (request w events tok) (Inl err1)
       # map Println_call (snd (parseInvalidSequenceTokenException err1))
       @ PutLogEvents_call c (request w events (Some t1)) (Inl err2)
       # map Println_call (snd (parseInvalidSequenceTokenException err2))
       @ PutLogEvents_call c (request w events (Some t2)) (Inl err3)
       # map Println_call (snd (parseInvalidSequenceTokenException err3))
       @ [remove_call c (group w) (stream w)])"
proof -
  have no: "\<not> (1 + 1 + 1 < (3 :: nat) \<and> fst (parseInvalidSequenceTokenException err3) \<noteq> None)"
    by simp
  have lt1: "(1 :: nat) < 3" and lt2: "(1 + 1 :: nat) < 3" by simp_all
  note last = attempts_giveup [where PutLogEvents = PutLogEvents and attempt = "1 + 1 + 1",
      OF third no]
  note middle = attempts_retry [where PutLogEvents = PutLogEvents and attempt = "1 + 1",
      OF second lt2 tok2 last]
  from attempts_retry [where PutLogEvents = PutLogEvents, OF first lt1 tok1 middle]
  show ?thesis .
qed

lemma WriteMessageBatch_valid:
  assumes "batch \<noteq> []" and "parent w = Some c"
  shows "WriteMessageBatch String Milliseconds PutLogEvents w batch r =
    attempts PutLogEvents c w (map (event_of String Milliseconds) batch) 1
      (if token w = [] then None else Some (token w)) r"
  using assms by (simp add: WriteMessageBatch_def aws_String_def)

subsection \<open>Worked examples\<close>

lemma parse_stale:
  "parseInvalidSequenceTokenException (awsError ''InvalidSequenceTokenException: stale: T1'')
     = (Some ''T1'',
        [''<<< InvalidSequenceTokenException: stale: T1'' @ [CHR 0x0A], ''>>> T1'' @ [CHR 0x0A]])"
  "parseInvalidSequenceTokenException (awsError ''InvalidSequenceTokenException: stale: T2'')
     = (Some ''T2'',
        [''<<< InvalidSequenceTokenException: stale: T2'' @ [CHR 0x0A], ''>>> T2'' @ [CHR 0x0A]])"
  "parseInvalidSequenceTokenException (awsError ''InvalidSequenceTokenException: stale: T3'')
     = (Some ''T3'',
        [''<<< InvalidSequenceTokenException: stale: T3'' @ [CHR 0x0A], ''>>> T3'' @ [CHR 0x0A]])"
  "parseInvalidSequenceTokenException (awsError ''ServiceUnavailable'')
     = (None, [''<<< ServiceUnavailable'' @ [CHR 0x0A], ''no prefix'' @ [CHR 0x0A]])"
  by code_simp+

lemma example_event_of:
  "event_of example_String example_Milliseconds example_message = example_event"
  by (simp add: event_of_def example_String_def example_Milliseconds_def example_message_def
      example_event_def aws_String_def aws_Int64_def)

text \<open>Three rejections that each carry a token: the writer gives up after the third.\<close>

lemma example_three_rejections:
  "WriteMessageBatch example_String example_Milliseconds scripted example_writer
      [example_message]
      [stale ''T1'', stale ''T2'', stale ''T3'', Inr \<lparr>NextSequenceToken = Some ''T4''\<rparr>]
   = (Some (awsError ''InvalidSequenceTokenException: stale: T3''),
      example_writer\<lparr>parent := None\<rparr>,
      [Inr \<lparr>NextSequenceToken = Some ''T4''\<rparr>],
      three_rejections)"
  by (simp add: WriteMessageBatch_def example_event_of attempts.simps [of scripted]
      scripted_def stale_def parse_stale example_writer_def request_def aws_String_def Let_def
      three_rejections_def)

text \<open>A failure that is no token mismatch: the writer gives up at once.\<close>

lemma example_unrelated_failure:
  "WriteMessageBatch example_String example_Milliseconds scripted example_writer
      [example_message] []
   = (Some (awsError ''ServiceUnavailable''), example_writer\<lparr>parent := None\<rparr>, [],
      unrelated_failure)"
  by (simp add: WriteMessageBatch_def example_event_of attempts.simps [of scripted]
      scripted_def parse_stale example_writer_def request_def aws_String_def Let_def
      unrelated_failure_def)

section \<open>The claims: a single message, and an invalidated writer\<close>

text \<open>
  C10. For every message \<open>m\<close> and every state of the writer and of the remote service,
  \<open>WriteMessage(m)\<close> returns the same error, leaves the same writer and remote state and
  makes the same calls as \<open>WriteMessageBatch\<close> on the batch of the one element \<open>m\<close>.
\<close>

theorem WriteMessage_is_singleton_batch:
  "WriteMessage String Milliseconds PutLogEvents w m r =
     WriteMessageBatch String Milliseconds PutLogEvents w [m] r"
  by (simp add: WriteMessage_def)

lemma WriteMessageBatch_invalid:
  assumes "parent w = None" and "batch \<noteq> []"
  shows "WriteMessageBatch String Milliseconds PutLogEvents w batch r =
    (Some errInvalidWriter, w, r, [])"
  using assms by (simp add: WriteMessageBatch_def)

lemma successive_calls_invalid:
  assumes "parent w = None" and "\<forall>batch \<in> set batches. batch \<noteq> []"
  shows "successive_calls String Milliseconds PutLogEvents w batches r =
    (map (\<lambda>batch. (Some errInvalidWriter, [])) batches, w, r)"
  using assms
proof (induction batches)
  case Nil
  then show ?case by simp
next
  case (Cons batch batches)
  then have "WriteMessageBatch String Milliseconds PutLogEvents w batch r =
      (Some errInvalidWriter, w, r, [])"
    by (intro WriteMessageBatch_invalid) simp_all
  with Cons show ?case by simp
qed

text \<open>
  C4. When the writer has been invalidated (its \<open>parent\<close> is \<open>nil\<close>), a call of
  \<open>WriteMessageBatch\<close> on a non-empty batch returns \<open>errInvalidWriter\<close>, makes no
  call at all (none of \<open>PutLogEvents\<close> in particular) and leaves the writer, its token
  included, and the remote state as they were; the same holds for every call of any
  sequence of later calls on that writer.
\<close>

theorem invalidated_writer_fails_immediately:
  assumes "parent w = None"
  shows "(batch \<noteq> [] \<longrightarrow>
            WriteMessageBatch String Milliseconds PutLogEvents w batch r =
              (Some errInvalidWriter, w, r, []))
       \<and> ((\<forall>batch \<in> set batches. batch \<noteq> []) \<longrightarrow>
            successive_calls String Milliseconds PutLogEvents w batches r =
              (map (\<lambda>batch. (Some errInvalidWriter, [])) batches, w, r))"
proof (intro conjI impI)
  assume "batch \<noteq> []"
  with assms show "WriteMessageBatch String Milliseconds PutLogEvents w batch r =
      (Some errInvalidWriter, w, r, [])"
    by (rule WriteMessageBatch_invalid)
next
  assume "\<forall>batch \<in> set batches. batch \<noteq> []"
  with assms show "successive_calls String Milliseconds PutLogEvents w batches r =
      (map (\<lambda>batch. (Some errInvalidWriter, [])) batches, w, r)"
    by (rule successive_calls_invalid)
qed

theorem invalidated_writer_fails_immediately_witness:
  "(let w = \<lparr>group = ''g'', stream = ''s'', token = ''T1'', parent = (None :: nat option)\<rparr>;
        m = \<lparr>Group = ''g'', Stream = ''s'', Time = (5 :: int)\<rparr>;
        String = (\<lambda>m :: int Message. ''payload'');
        Milliseconds = (\<lambda>t :: int. word_of_int t);
        PutLogEvents = (\<lambda>(c :: nat) (r :: nat) input.
          (Inr \<lparr>NextSequenceToken = Some ''T2''\<rparr>, Suc r))
    in parent w = None \<and> [m] \<noteq> []
       \<and> WriteMessageBatch String Milliseconds PutLogEvents w [m] 0
            = (Some errInvalidWriter, w, 0, [])
       \<and> (\<forall>batch \<in> set [[m], [m, m]]. batch \<noteq> [])
       \<and> successive_calls String Milliseconds PutLogEvents w [[m], [m, m]] 0
            = ([(Some errInvalidWriter, []), (Some errInvalidWriter, [])], w, 0))"
proof -
  define w where "w = \<lparr>group = ''g'', stream = ''s'', token = ''T1'', parent = (None :: nat option)\<rparr>"
  define m where "m = \<lparr>Group = ''g'', Stream = ''s'', Time = (5 :: int)\<rparr>"
  have p: "parent w = None" by (simp add: w_def)
  show ?thesis
    using invalidated_writer_fails_immediately [OF p, of "[m]" "\<lambda>m. ''payload''"
        "\<lambda>t. word_of_int t" "\<lambda>c r input. (Inr \<lparr>NextSequenceToken = Some ''T2''\<rparr>, Suc r)" 0
        "[[m], [m, m]]"]
    by (simp add: w_def m_def Let_def WriteMessageBatch_def)
qed

section \<open>The claims: the retry loop\<close>



text \<open>
  C3. Take a call of \<open>WriteMessageBatch\<close> on a valid writer and a non-empty batch.
  When the first call of \<open>PutLogEvents\<close> fails and no token is extracted from its
  error (the extraction fails, or the failure is no token mismatch), or the second does
  after the first was retried, or the third fails in any way after two retries (no
  attempt remains), then that is the last attempt and its error is the error returned.
  Whenever an error is returned, the writer has called \<open>remove\<close> exactly once, on its
  own client with its own group and stream, as its last action; its \<open>parent\<close> is
  \<open>nil\<close> afterwards and nothing else of it has changed; the error returned is the
  error of the last call of \<open>PutLogEvents\<close>, unchanged; either no token was extracted
  from it or that call was the third one; and a later call on that writer returns
  \<open>errInvalidWriter\<close> without any call. When no error is returned, \<open>remove\<close> has
  not been called and the writer is still valid. The calls of \<open>PutLogEvents\<close> recorded
  are the calls made: their results are the answers of the client to their inputs.
\<close>

theorem unrecoverable_failure_invalidates:
  assumes "batch \<noteq> []" and "parent w = Some c"
    and "WriteMessageBatch String Milliseconds PutLogEvents w batch r = (e, w', r', cs)"
    and "events = map (event_of String Milliseconds) batch"
    and "tok = (if token w = [] then None else Some (token w))"
  shows "(\<forall>err1. fst (first_answer PutLogEvents c w events tok r) = Inl err1
             \<and> fst (parseInvalidSequenceTokenException err1) = None
           \<longrightarrow> e = Some err1 \<and> length (put_calls cs) = 1)
       \<and> (\<forall>err1 t1 err2. fst (first_answer PutLogEvents c w events tok r) = Inl err1
             \<and> fst (parseInvalidSequenceTokenException err1) = Some t1
             \<and> fst (second_answer PutLogEvents c w events tok r t1) = Inl err2
             \<and> fst (parseInvalidSequenceTokenException err2) = None
           \<longrightarrow> e = Some err2 \<and> length (put_calls cs) = 2)
       \<and> (\<forall>err1 t1 err2 t2 err3. fst (first_answer PutLogEvents c w events tok r) = Inl err1
             \<and> fst (parseInvalidSequenceTokenException err1) = Some t1
             \<and> fst (second_answer PutLogEvents c w events tok r t1) = Inl err2
             \<and> fst (parseInvalidSequenceTokenException err2) = Some t2
             \<and> fst (third_answer PutLogEvents c w events tok r t1 t2) = Inl err3
           \<longrightarrow> e = Some err3 \<and> length (put_calls cs) = 3)
       \<and> (\<forall>err. e = Some err \<longrightarrow>
             remove_calls cs = [(c, group w, stream w)]
             \<and> last cs = remove_call c (group w) (stream w)
             \<and> w' = w\<lparr>parent := None\<rparr>
             \<and> snd (last (put_calls cs)) = Inl err
             \<and> (fst (parseInvalidSequenceTokenException err) = None \<or> length (put_calls cs) = 3)
             \<and> (later \<noteq> [] \<longrightarrow>
                  WriteMessageBatch String Milliseconds PutLogEvents w' later r''
                    = (Some errInvalidWriter, w', r'', [])))
       \<and> (e = None \<longrightarrow> remove_calls cs = [] \<and> parent w' = Some c)
       \<and> answers PutLogEvents c r (map fst (put_calls cs)) = (map snd (put_calls cs), r')"
proof -
  from assms(3) WriteMessageBatch_valid [OF assms(1,2), of String Milliseconds PutLogEvents r]
  have run: "attempts PutLogEvents c w events 1 tok r = (e, w', r', cs)"
    by (simp add: assms(4,5))
  have one: "e = Some err1 \<and> length (put_calls cs) = 1"
    if "fst (first_answer PutLogEvents c w events tok r) = Inl err1"
      and "fst (parseInvalidSequenceTokenException err1) = None"
    for err1
    using giveup_at_first [where PutLogEvents = PutLogEvents,
        OF that(1) [unfolded first_answer_def] that(2)] run
    by auto
  have two: "e = Some err2 \<and> length (put_calls cs) = 2"
    if "fst (first_answer PutLogEvents c w events tok r) = Inl err1"
      and "fst (parseInvalidSequenceTokenException err1) = Some t1"
      and "fst (second_answer PutLogEvents c w events tok r t1) = Inl err2"
      and "fst (parseInvalidSequenceTokenException err2) = None"
    for err1 t1 err2
    using giveup_at_second [where PutLogEvents = PutLogEvents,
        OF that(1) [unfolded first_answer_def] that(2)
        that(3) [unfolded second_answer_def first_answer_def] that(4)] run
    by auto
  have three: "e = Some err3 \<and> length (put_calls cs) = 3"
    if "fst (first_answer PutLogEvents c w events tok r) = Inl err1"
      and "fst (parseInvalidSequenceTokenException err1) = Some t1"
      and "fst (second_answer PutLogEvents c w events tok r t1) = Inl err2"
      and "fst (parseInvalidSequenceTokenException err2) = Some t2"
      and "fst (third_answer PutLogEvents c w events tok r t1 t2) = Inl err3"
    for err1 t1 err2 t2 err3
    using giveup_at_third [where PutLogEvents = PutLogEvents,
        OF that(1) [unfolded first_answer_def] that(2)
        that(3) [unfolded second_answer_def first_answer_def] that(4)
        that(5) [unfolded third_answer_def second_answer_def first_answer_def]] run
    by auto
  from attempts_bound [OF run] have bound: "length (put_calls cs) \<le> 3" by simp
  have failed: "remove_calls cs = [(c, group w, stream w)]
      \<and> last cs = remove_call c (group w) (stream w)
      \<and> w' = w\<lparr>parent := None\<rparr>
      \<and> snd (last (put_calls cs)) = Inl err
      \<and> (fst (parseInvalidSequenceTokenException err) = None \<or> length (put_calls cs) = 3)
      \<and> (later \<noteq> [] \<longrightarrow>
           WriteMessageBatch String Milliseconds PutLogEvents w' later r''
             = (Some errInvalidWriter, w', r'', []))"
    if "e = Some err" for err
  proof -
    from attempts_outcome [OF run] that have out: "snd (last (put_calls cs)) = Inl err"
      "w' = w\<lparr>parent := None\<rparr>" "remove_calls cs = [(c, group w, stream w)]"
      "last cs = remove_call c (group w) (stream w)"
      "fst (parseInvalidSequenceTokenException err) = None \<or> 3 \<le> 1 + (length (put_calls cs) - 1)"
      by simp_all
    from out(2) have invalid: "parent w' = None" by simp
    have "WriteMessageBatch String Milliseconds PutLogEvents w' later r''
        = (Some errInvalidWriter, w', r'', [])" if "later \<noteq> []"
      using invalid that by (rule WriteMessageBatch_invalid)
    with out bound show ?thesis by auto
  qed
  have kept: "remove_calls cs = [] \<and> parent w' = Some c" if "e = None"
    using attempts_success_keeps [OF run [unfolded that]] assms(2) by simp
  note recorded = attempts_answers [OF run]
  from one two three failed kept recorded show ?thesis by blast
qed

theorem unrecoverable_failure_invalidates_witness:
  "[example_message] \<noteq> [] \<and> parent example_writer = Some 7
   \<and> WriteMessageBatch example_String example_Milliseconds scripted example_writer
        [example_message] []
      = (Some (awsError ''ServiceUnavailable''), example_writer\<lparr>parent := None\<rparr>, [],
         unrelated_failure)
   \<and> fst (first_answer scripted 7 example_writer [example_event] None [])
      = Inl (awsError ''ServiceUnavailable'')
   \<and> fst (parseInvalidSequenceTokenException (awsError ''ServiceUnavailable'')) = None
   \<and> length (put_calls unrelated_failure) = 1
   \<and> remove_calls unrelated_failure = [(7, ''app'', ''web'')]
   \<and> last unrelated_failure = remove_call 7 ''app'' ''web''
   \<and> snd (last (put_calls unrelated_failure)) = Inl (awsError ''ServiceUnavailable'')
   \<and> WriteMessageBatch example_String example_Milliseconds scripted
        (example_writer\<lparr>parent := None\<rparr>) [later_message]
        [Inr \<lparr>NextSequenceToken = Some ''T1''\<rparr>]
      = (Some errInvalidWriter, example_writer\<lparr>parent := None\<rparr>,
         [Inr \<lparr>NextSequenceToken = Some ''T1''\<rparr>], [])
   \<and> WriteMessageBatch example_String example_Milliseconds scripted example_writer
        [example_message]
        [stale ''T1'', stale ''T2'', stale ''T3'', Inr \<lparr>NextSequenceToken = Some ''T4''\<rparr>]
      = (Some (awsError ''InvalidSequenceTokenException: stale: T3''),
         example_writer\<lparr>parent := None\<rparr>, [Inr \<lparr>NextSequenceToken = Some ''T4''\<rparr>],
         three_rejections)
   \<and> fst (third_answer scripted 7 example_writer [example_event] None
             [stale ''T1'', stale ''T2'', stale ''T3'', Inr \<lparr>NextSequenceToken = Some ''T4''\<rparr>]
             ''T1'' ''T2'')
      = stale ''T3''
   \<and> length (put_calls three_rejections) = 3
   \<and> remove_calls three_rejections = [(7, ''app'', ''web'')]"
proof -
  let ?script = "[stale ''T1'', stale ''T2'', stale ''T3'', Inr \<lparr>NextSequenceToken = Some ''T4''\<rparr>]"
  have b: "[example_message] \<noteq> []" by simp
  have p: "parent example_writer = Some 7" by (simp add: example_writer_def)
  have ev: "[example_event] = map (event_of example_String example_Milliseconds) [example_message]"
    by (simp add: example_event_of)
  have tk: "None = (if token example_writer = [] then None else Some (token example_writer))"
    by (simp add: example_writer_def)
  note unrelated = unrecoverable_failure_invalidates
    [OF b p example_unrelated_failure ev tk,
      of "[later_message]" "[Inr \<lparr>NextSequenceToken = Some ''T1''\<rparr>]"]
  note three = unrecoverable_failure_invalidates
    [OF b p example_three_rejections ev tk, of "[]" "[]"]
  have first1: "fst (first_answer scripted 7 example_writer [example_event] None [])
      = Inl (awsError ''ServiceUnavailable'')"
    by (simp add: first_answer_def scripted_def)
  have none: "fst (parseInvalidSequenceTokenException (awsError ''ServiceUnavailable'')) = None"
    by (simp add: parse_stale)
  from unrelated [THEN conjunct1, rule_format, of "awsError ''ServiceUnavailable''"] first1 none
  have one_call: "length (put_calls unrelated_failure) = 1" by simp
  from unrelated [THEN conjunct2, THEN conjunct2, THEN conjunct2, THEN conjunct1, rule_format,
      of "awsError ''ServiceUnavailable''"]
  have cleanup: "remove_calls unrelated_failure = [(7, ''app'', ''web'')]
      \<and> last unrelated_failure = remove_call 7 ''app'' ''web''
      \<and> snd (last (put_calls unrelated_failure)) = Inl (awsError ''ServiceUnavailable'')
      \<and> WriteMessageBatch example_String example_Milliseconds scripted
           (example_writer\<lparr>parent := None\<rparr>) [later_message]
           [Inr \<lparr>NextSequenceToken = Some ''T1''\<rparr>]
         = (Some errInvalidWriter, example_writer\<lparr>parent := None\<rparr>,
            [Inr \<lparr>NextSequenceToken = Some ''T1''\<rparr>], [])"
    by (simp add: example_writer_def)
  have a1: "fst (first_answer scripted 7 example_writer [example_event] None ?script)
      = Inl (awsError ''InvalidSequenceTokenException: stale: T1'')"
    and a2: "fst (second_answer scripted 7 example_writer [example_event] None ?script ''T1'')
      = Inl (awsError ''InvalidSequenceTokenException: stale: T2'')"
    and a3: "fst (third_answer scripted 7 example_writer [example_event] None ?script ''T1'' ''T2'')
      = Inl (awsError ''InvalidSequenceTokenException: stale: T3'')"
    by (simp_all add: first_answer_def second_answer_def third_answer_def scripted_def stale_def)
  from three [THEN conjunct2, THEN conjunct2, THEN conjunct1, rule_format,
      of "awsError ''InvalidSequenceTokenException: stale: T1''" "''T1''"
         "awsError ''InvalidSequenceTokenException: stale: T2''" "''T2''"
         "awsError ''InvalidSequenceTokenException: stale: T3''"] a1 a2 a3
  have three_calls: "length (put_calls three_rejections) = 3"
    by (simp add: parse_stale)
  from three [THEN conjunct2, THEN conjunct2, THEN conjunct2, THEN conjunct1, rule_format,
      of "awsError ''InvalidSequenceTokenException: stale: T3''"]
  have removed: "remove_calls three_rejections = [(7, ''app'', ''web'')]"
    by (simp add: example_writer_def)
  from b p example_unrelated_failure first1 none one_call cleanup example_three_rejections
    a3 three_calls removed
  show ?thesis by (simp add: stale_def)
qed

section \<open>The claims: what is sent\<close>

lemma event_of_fields:
  "Message (event_of String Milliseconds msg)
     = Some (String (msg\<lparr>Group := [], Stream := [], Time := 0\<rparr>))"
  "Timestamp (event_of String Milliseconds msg) = Some (Milliseconds (Time msg))"
  by (simp_all add: event_of_def aws_String_def aws_Int64_def)

lemma later_event_of:
  "event_of example_String example_Milliseconds later_message = later_event"
  by (simp add: event_of_def example_String_def example_Milliseconds_def later_message_def
      later_event_def aws_String_def aws_Int64_def)

text \<open>A batch of two messages, accepted at the first attempt.\<close>

lemma example_success:
  "WriteMessageBatch example_String example_Milliseconds scripted example_writer
      [example_message, later_message] [Inr \<lparr>NextSequenceToken = Some ''T1''\<rparr>]
   = (None, example_writer\<lparr>token := ''T1''\<rparr>, [],
      [PutLogEvents_call 7 (request example_writer [example_event, later_event] None)
         (Inr \<lparr>NextSequenceToken = Some ''T1''\<rparr>)])"
  by (simp add: WriteMessageBatch_def example_event_of later_event_of attempts.simps [of scripted]
      scripted_def example_writer_def request_def aws_String_def aws_StringValue_def Let_def)

text \<open>
  C7. In every call of \<open>PutLogEvents\<close> that \<open>WriteMessageBatch\<close> makes, the events are
  those of the batch, one for each message and in the same order. The event of a message
  carries as its timestamp the \<open>Milliseconds\<close> of the \<open>Time\<close> the message came with,
  and as its payload the serialization of the message with \<open>Group\<close> and \<open>Stream\<close>
  set to the empty string (and \<open>Time\<close> set to zero), the other fields being untouched.
  A valid writer makes such a call for every non-empty batch.
\<close>

theorem events_carry_timestamp_and_blanked_payload:
  assumes "WriteMessageBatch String Milliseconds PutLogEvents w batch r = (e, w', r', cs)"
  shows "(batch \<noteq> [] \<and> parent w \<noteq> None \<longrightarrow> put_calls cs \<noteq> [])
       \<and> (\<forall>x \<in> set (put_calls cs).
            length (LogEvents (fst x)) = length batch
            \<and> (\<forall>i < length batch.
                 Timestamp (LogEvents (fst x) ! i) = Some (Milliseconds (Time (batch ! i)))
                 \<and> Message (LogEvents (fst x) ! i)
                     = Some (String ((batch ! i)\<lparr>Group := [], Stream := [], Time := 0\<rparr>))))"
proof (cases "batch \<noteq> [] \<and> parent w \<noteq> None")
  case False
  with assms have "cs = []"
    by (auto simp add: WriteMessageBatch_def Let_def split: option.splits if_splits)
  with False show ?thesis by auto
next
  case True
  then obtain c where c: "parent w = Some c" and ne: "batch \<noteq> []" by auto
  let ?events = "map (event_of String Milliseconds) batch"
  let ?tok = "if token w = [] then None else Some (token w)"
  from assms WriteMessageBatch_valid [OF ne c, of String Milliseconds PutLogEvents r]
  have run: "attempts PutLogEvents c w ?events 1 ?tok r = (e, w', r', cs)" by simp
  from attempts_bound [OF run] have some: "put_calls cs \<noteq> []" by simp
  have "LogEvents (fst x) = ?events" if "x \<in> set (put_calls cs)" for x
    using attempts_requests [OF run] that by (auto simp add: request_def)
  with some show ?thesis by (simp add: event_of_fields)
qed

theorem events_carry_timestamp_and_blanked_payload_witness:
  "WriteMessageBatch example_String example_Milliseconds scripted example_writer
      [example_message, later_message] [Inr \<lparr>NextSequenceToken = Some ''T1''\<rparr>]
    = (None, example_writer\<lparr>token := ''T1''\<rparr>, [],
       [PutLogEvents_call 7 (request example_writer [example_event, later_event] None)
          (Inr \<lparr>NextSequenceToken = Some ''T1''\<rparr>)])
   \<and> Time example_message = 5000 \<and> Time later_message = 7250
   \<and> Timestamp example_event = Some (example_Milliseconds 5000)
   \<and> Timestamp later_event = Some (example_Milliseconds 7250)
   \<and> Message example_event
       = Some (example_String (example_message\<lparr>Group := [], Stream := [], Time := 0\<rparr>))
   \<and> Message later_event
       = Some (example_String (later_message\<lparr>Group := [], Stream := [], Time := 0\<rparr>))
   \<and> example_String example_message = ''app|web|hello''"
proof -
  from events_carry_timestamp_and_blanked_payload [OF example_success]
  have every: "\<forall>i < 2.
      Timestamp ([example_event, later_event] ! i)
        = Some (example_Milliseconds (Time ([example_message, later_message] ! i)))
      \<and> Message ([example_event, later_event] ! i)
        = Some (example_String (([example_message, later_message] ! i)
                  \<lparr>Group := [], Stream := [], Time := 0\<rparr>))"
    by (simp add: request_def)
  from every [rule_format, of 0] every [rule_format, of 1] example_success
  show ?thesis
    by (simp add: example_message_def later_message_def example_String_def)
qed

section \<open>The claims: the token from one call to the next\<close>

lemma WriteMessageBatch_success:
  assumes "batch \<noteq> []"
    and "WriteMessageBatch String Milliseconds PutLogEvents w batch r = (None, w', r', cs)"
  shows "\<exists>out. snd (last (put_calls cs)) = Inr out
           \<and> w' = w\<lparr>token := aws_StringValue (NextSequenceToken out)\<rparr>"
proof (cases "parent w")
  case None
  with assms show ?thesis by (simp add: WriteMessageBatch_def)
next
  case (Some c)
  from assms(2) WriteMessageBatch_valid [OF assms(1) Some, of String Milliseconds PutLogEvents r]
  have "attempts PutLogEvents c w (map (event_of String Milliseconds) batch) 1
      (if token w = [] then None else Some (token w)) r = (None, w', r', cs)" by simp
  from attempts_outcome [OF this] show ?thesis by simp
qed

lemma WriteMessageBatch_first_token:
  assumes "batch \<noteq> []" and "parent w \<noteq> None"
    and "WriteMessageBatch String Milliseconds PutLogEvents w batch r = (e, w', r', cs)"
  shows "put_calls cs \<noteq> []
       \<and> SequenceToken (fst (hd (put_calls cs))) = (if token w = [] then None else Some (token w))"
proof -
  from assms(2) obtain c where c: "parent w = Some c" by auto
  from assms(3) WriteMessageBatch_valid [OF assms(1) c, of String Milliseconds PutLogEvents r]
  have run: "attempts PutLogEvents c w (map (event_of String Milliseconds) batch) 1
      (if token w = [] then None else Some (token w)) r = (e, w', r', cs)" by simp
  from attempts_bound [OF run] attempts_requests [OF run] show ?thesis
    by (simp add: request_def)
qed

lemma successive_calls_Cons:
  assumes "successive_calls String Milliseconds PutLogEvents w (batch # batches) r = (outs, w', r')"
  obtains e w1 r1 cs outs1 where
    "WriteMessageBatch String Milliseconds PutLogEvents w batch r = (e, w1, r1, cs)"
    and "successive_calls String Milliseconds PutLogEvents w1 batches r1 = (outs1, w', r')"
    and "outs = (e, cs) # outs1"
  using assms by (auto split: prod.splits)

lemma successive_calls_length:
  "successive_calls String Milliseconds PutLogEvents w batches r = (outs, w', r')
    \<Longrightarrow> length outs = length batches"
proof (induction batches arbitrary: w r outs)
  case Nil
  then show ?case by simp
next
  case (Cons batch batches)
  from Cons.prems obtain e w1 r1 cs outs1 where
    "successive_calls String Milliseconds PutLogEvents w1 batches r1 = (outs1, w', r')"
    and "outs = (e, cs) # outs1"
    by (rule successive_calls_Cons)
  with Cons.IH show ?case by simp
qed

lemma successive_calls_first:
  assumes "successive_calls String Milliseconds PutLogEvents w batches r = (outs, w', r')"
    and "batches \<noteq> []" and "hd batches \<noteq> []" and "parent w \<noteq> None"
  shows "put_calls (snd (outs ! 0)) \<noteq> []
       \<and> SequenceToken (fst (hd (put_calls (snd (outs ! 0)))))
           = (if token w = [] then None else Some (token w))"
proof -
  from assms(2) obtain batch rest where b: "batches = batch # rest" by (cases batches) auto
  from assms(1) [unfolded b] obtain e w1 r1 cs outs1 where
    one: "WriteMessageBatch String Milliseconds PutLogEvents w batch r = (e, w1, r1, cs)"
    and outs: "outs = (e, cs) # outs1"
    by (rule successive_calls_Cons)
  from assms(3) b have "batch \<noteq> []" by simp
  from WriteMessageBatch_first_token [OF this assms(4) one] outs show ?thesis by simp
qed

lemma successive_calls_continuity:
  assumes "successive_calls String Milliseconds PutLogEvents w batches r = (outs, w', r')"
    and "\<forall>batch \<in> set batches. batch \<noteq> []"
    and "\<forall>x \<in> set outs. fst x = None"
    and "Suc n < length outs"
  shows "\<exists>out. snd (last (put_calls (snd (outs ! n)))) = Inr out
           \<and> put_calls (snd (outs ! Suc n)) \<noteq> []
           \<and> SequenceToken (fst (hd (put_calls (snd (outs ! Suc n)))))
               = (if aws_StringValue (NextSequenceToken out) = [] then None
                  else Some (aws_StringValue (NextSequenceToken out)))"
  using assms
proof (induction batches arbitrary: w r outs n)
  case Nil
  then show ?case by simp
next
  case (Cons batch batches)
  from Cons.prems(1) obtain e w1 r1 cs outs1 where
    one: "WriteMessageBatch String Milliseconds PutLogEvents w batch r = (e, w1, r1, cs)"
    and rest: "successive_calls String Milliseconds PutLogEvents w1 batches r1 = (outs1, w', r')"
    and outs: "outs = (e, cs) # outs1"
    by (rule successive_calls_Cons)
  from Cons.prems(2) have ne: "batch \<noteq> []" and nes: "\<forall>batch \<in> set batches. batch \<noteq> []"
    by simp_all
  from Cons.prems(3) outs have e: "e = None" and oks: "\<forall>x \<in> set outs1. fst x = None"
    by simp_all
  show ?case
  proof (cases n)
    case 0
    from WriteMessageBatch_success [OF ne one [unfolded e]] obtain out where
      out: "snd (last (put_calls cs)) = Inr out"
      and w1: "w1 = w\<lparr>token := aws_StringValue (NextSequenceToken out)\<rparr>"
      by blast
    have valid: "parent w1 \<noteq> None"
    proof
      assume "parent w1 = None"
      with w1 have "parent w = None" by simp
      with ne one e show False by (simp add: WriteMessageBatch_def)
    qed
    from Cons.prems(4) outs 0 have "outs1 \<noteq> []" by auto
    with successive_calls_length [OF rest] have b: "batches \<noteq> []" by auto
    with nes have "hd batches \<noteq> []" by simp
    from successive_calls_first [OF rest b this valid] out w1 outs 0
    show ?thesis by simp
  next
    case (Suc m)
    with Cons.prems(4) outs have "Suc m < length outs1" by simp
    from Cons.IH [OF rest nes oks this] outs Suc show ?thesis by simp
  qed
qed

text \<open>Two calls, each accepted at the first attempt.\<close>

lemma example_two_calls:
  "successive_calls example_String example_Milliseconds scripted example_writer
      [[example_message], [later_message]]
      [Inr \<lparr>NextSequenceToken = Some ''T1''\<rparr>, Inr \<lparr>NextSequenceToken = Some ''T2''\<rparr>]
   = ([(None, [PutLogEvents_call 7 (request example_writer [example_event] None)
                 (Inr \<lparr>NextSequenceToken = Some ''T1''\<rparr>)]),
       (None, [PutLogEvents_call 7 (request example_writer [later_event] (Some ''T1''))
                 (Inr \<lparr>NextSequenceToken = Some ''T2''\<rparr>)])],
      example_writer\<lparr>token := ''T2''\<rparr>, [])"
  by (simp add: WriteMessageBatch_def example_event_of later_event_of attempts.simps [of scripted]
      scripted_def example_writer_def request_def aws_String_def aws_StringValue_def Let_def)

text \<open>
  C5, as the code has it. In a sequence of calls of \<open>WriteMessageBatch\<close> on one writer,
  all on non-empty batches and all successful, the successful call of \<open>PutLogEvents\<close>
  of call \<open>n\<close> returned an output, and the first call of \<open>PutLogEvents\<close> of call
  \<open>n + 1\<close> passes the \<open>NextSequenceToken\<close> of that output as its sequence token,
  except that it passes no token when the \<open>NextSequenceToken\<close> is the empty string
  (the writer stores the token as a string and passes a token only when the string is
  not empty). The first call of the sequence passes no token when the token stored in the
  writer is empty.
\<close>

theorem token_continuity:
  assumes "successive_calls String Milliseconds PutLogEvents w batches r = (outs, w', r')"
    and "\<forall>batch \<in> set batches. batch \<noteq> []"
    and "\<forall>x \<in> set outs. fst x = None"
  shows "(\<forall>n. Suc n < length outs \<longrightarrow>
            (\<exists>out. snd (last (put_calls (snd (outs ! n)))) = Inr out
               \<and> put_calls (snd (outs ! Suc n)) \<noteq> []
               \<and> SequenceToken (fst (hd (put_calls (snd (outs ! Suc n)))))
                   = (if NextSequenceToken out = Some [] then None
                      else NextSequenceToken out)))
       \<and> (batches \<noteq> [] \<and> token w = [] \<longrightarrow>
            put_calls (snd (outs ! 0)) \<noteq> []
            \<and> SequenceToken (fst (hd (put_calls (snd (outs ! 0))))) = None)"
proof (intro conjI allI impI)
  fix n
  assume "Suc n < length outs"
  from successive_calls_continuity [OF assms this] obtain out where
    out: "snd (last (put_calls (snd (outs ! n)))) = Inr out"
    and some: "put_calls (snd (outs ! Suc n)) \<noteq> []"
    and tok: "SequenceToken (fst (hd (put_calls (snd (outs ! Suc n)))))
        = (if aws_StringValue (NextSequenceToken out) = [] then None
           else Some (aws_StringValue (NextSequenceToken out)))"
    by blast
  have "(if aws_StringValue (NextSequenceToken out) = [] then None
         else Some (aws_StringValue (NextSequenceToken out)))
      = (if NextSequenceToken out = Some [] then None else NextSequenceToken out)"
    by (cases "NextSequenceToken out") (simp_all add: aws_StringValue_def)
  with out some tok
  show "\<exists>out. snd (last (put_calls (snd (outs ! n)))) = Inr out
      \<and> put_calls (snd (outs ! Suc n)) \<noteq> []
      \<and> SequenceToken (fst (hd (put_calls (snd (outs ! Suc n)))))
          = (if NextSequenceToken out = Some [] then None else NextSequenceToken out)"
    by auto
next
  assume first: "batches \<noteq> [] \<and> token w = []"
  then obtain batch rest where b: "batches = batch # rest" by (cases batches) auto
  from assms(1) [unfolded b] obtain e w1 r1 cs outs1 where
    one: "WriteMessageBatch String Milliseconds PutLogEvents w batch r = (e, w1, r1, cs)"
    and outs: "outs = (e, cs) # outs1"
    by (rule successive_calls_Cons)
  from assms(2) b have ne: "batch \<noteq> []" by simp
  from assms(3) outs have e: "e = None" by simp
  have valid: "parent w \<noteq> None"
  proof
    assume "parent w = None"
    with ne one e show False by (simp add: WriteMessageBatch_def)
  qed
  from successive_calls_first [OF assms(1) _ _ valid] first b ne
  have "put_calls (snd (outs ! 0)) \<noteq> []
      \<and> SequenceToken (fst (hd (put_calls (snd (outs ! 0))))) = None"
    by simp
  then show "put_calls (snd (outs ! 0)) \<noteq> []"
    and "SequenceToken (fst (hd (put_calls (snd (outs ! 0))))) = None"
    by simp_all
qed

theorem token_continuity_witness:
  "successive_calls example_String example_Milliseconds scripted example_writer
      [[example_message], [later_message]]
      [Inr \<lparr>NextSequenceToken = Some ''T1''\<rparr>, Inr \<lparr>NextSequenceToken = Some ''T2''\<rparr>]
    = ([(None, [PutLogEvents_call 7 (request example_writer [example_event] None)
                  (Inr \<lparr>NextSequenceToken = Some ''T1''\<rparr>)]),
        (None, [PutLogEvents_call 7 (request example_writer [later_event] (Some ''T1''))
                  (Inr \<lparr>NextSequenceToken = Some ''T2''\<rparr>)])],
       example_writer\<lparr>token := ''T2''\<rparr>, [])
   \<and> token example_writer = []
   \<and> SequenceToken (request example_writer [example_event] None) = None
   \<and> SequenceToken (request example_writer [later_event] (Some ''T1'')) = Some ''T1''"
proof -
  let ?outs = "[(None, [PutLogEvents_call 7 (request example_writer [example_event] None)
                  (Inr \<lparr>NextSequenceToken = Some ''T1''\<rparr>)]),
        (None, [PutLogEvents_call 7 (request example_writer [later_event] (Some ''T1''))
                  (Inr \<lparr>NextSequenceToken = Some ''T2''\<rparr>)])]"
  have ne: "\<forall>batch \<in> set [[example_message], [later_message]]. batch \<noteq> []" by simp
  have ok: "\<forall>x \<in> set ?outs. fst x = None" by simp
  note fact = token_continuity [OF example_two_calls ne ok]
  note next_token = fact [THEN conjunct1, rule_format, of 0]
  note first_token = fact [THEN conjunct2]
  from next_token first_token example_two_calls show ?thesis
    by (simp add: example_writer_def request_def)
qed

text \<open>
  C5 as it is stated fails where the service returns the empty string as the next
  token: the first call is accepted and returns the empty token, and the second call
  passes no token at all.
\<close>

theorem token_continuity_counterexample:
  "successive_calls example_String example_Milliseconds scripted example_writer
      [[example_message], [later_message]]
      [Inr \<lparr>NextSequenceToken = Some []\<rparr>, Inr \<lparr>NextSequenceToken = Some ''T2''\<rparr>]
    = ([(None, [PutLogEvents_call 7 (request example_writer [example_event] None)
                  (Inr \<lparr>NextSequenceToken = Some []\<rparr>)]),
        (None, [PutLogEvents_call 7 (request example_writer [later_event] None)
                  (Inr \<lparr>NextSequenceToken = Some ''T2''\<rparr>)])],
       example_writer\<lparr>token := ''T2''\<rparr>, [])
   \<and> SequenceToken (request example_writer [later_event] None)
       \<noteq> NextSequenceToken \<lparr>NextSequenceToken = Some []\<rparr>"
  by (simp add: WriteMessageBatch_def example_event_of later_event_of attempts.simps [of scripted]
      scripted_def example_writer_def request_def aws_String_def aws_StringValue_def Let_def)

section \<open>The claims: recovery from a stale token\<close>

lemma parse_message_only:
  "Error err = Error err'
    \<Longrightarrow> parseInvalidSequenceTokenException err = parseInvalidSequenceTokenException err'"
  by (simp add: parseInvalidSequenceTokenException_def)

lemma parse_fooError:
  "parseInvalidSequenceTokenException (awsError fooError)
     = (Some ''expected sequence token is'',
        [''<<< '' @ fooError @ [CHR 0x0A], ''>>> expected sequence token is'' @ [CHR 0x0A]])"
  unfolding fooError_def by code_simp

text \<open>
  C1 as it is stated fails: the message has four fields between its colons, and the
  third one, which the parser returns, is \<open>expected sequence token is\<close>; \<open>ABC123\<close>
  is the fourth.
\<close>

theorem fooError_token_counterexample:
  "fst (parseInvalidSequenceTokenException
          (awsError ''InvalidSequenceTokenException: fooError: expected sequence token is: ABC123''))
     \<noteq> Some ''ABC123''"
  using parse_fooError by (simp add: fooError_def)

text \<open>
  C1, as the code has it. For a rejection whose message is exactly
  \<open>InvalidSequenceTokenException: fooError: expected sequence token is: ABC123\<close> the
  parser extracts the third field between the colons, \<open>expected sequence token is\<close>.
  A call of \<open>WriteMessageBatch\<close> whose first call of \<open>PutLogEvents\<close> fails with that
  rejection makes a second call that passes exactly the extracted token; when the second
  call succeeds, \<open>WriteMessageBatch\<close> returns no error, stores the next token returned,
  stays valid and has made these two calls and no call of \<open>remove\<close>.
\<close>

theorem stale_token_recovery:
  assumes "batch \<noteq> []" and "parent w = Some c"
    and "Error err = fooError"
    and "PutLogEvents c r
           (request w (map (event_of String Milliseconds) batch)
              (if token w = [] then None else Some (token w))) = (Inl err, r1)"
    and "PutLogEvents c r1
           (request w (map (event_of String Milliseconds) batch)
              (Some ''expected sequence token is'')) = (Inr out, r2)"
    and "WriteMessageBatch String Milliseconds PutLogEvents w batch r = (e, w', r', cs)"
  shows "fst (parseInvalidSequenceTokenException err) = Some ''expected sequence token is''
       \<and> e = None
       \<and> w' = w\<lparr>token := aws_StringValue (NextSequenceToken out)\<rparr>
       \<and> r' = r2
       \<and> put_calls cs =
           [(request w (map (event_of String Milliseconds) batch)
               (if token w = [] then None else Some (token w)), Inl err),
            (request w (map (event_of String Milliseconds) batch)
               (Some ''expected sequence token is''), Inr out)]
       \<and> remove_calls cs = []"
proof -
  let ?events = "map (event_of String Milliseconds) batch"
  let ?tok = "if token w = [] then None else Some (token w)"
  have "Error err = Error (awsError fooError)" using assms(3) by simp
  from parse_message_only [OF this]
  have parsed: "parseInvalidSequenceTokenException err
      = (Some ''expected sequence token is'',
         [''<<< '' @ fooError @ [CHR 0x0A], ''>>> expected sequence token is'' @ [CHR 0x0A]])"
    by (simp add: parse_fooError)
  have first: "fst (PutLogEvents c r (request w ?events ?tok)) = Inl err"
    and r1: "snd (PutLogEvents c r (request w ?events ?tok)) = r1"
    using assms(4) by simp_all
  have second: "fst (PutLogEvents c r1 (request w ?events (Some ''expected sequence token is'')))
      = Inr out"
    and r2: "snd (PutLogEvents c r1 (request w ?events (Some ''expected sequence token is''))) = r2"
    using assms(5) by simp_all
  have two: "attempts PutLogEvents c w ?events (1 + 1) (Some ''expected sequence token is'')
      (snd (PutLogEvents c r (request w ?events ?tok)))
    = (None, w\<lparr>token := aws_StringValue (NextSequenceToken out)\<rparr>, r2,
       [PutLogEvents_call c (request w ?events (Some ''expected sequence token is'')) (Inr out)])"
    unfolding r1
    using attempts_success [where PutLogEvents = PutLogEvents and attempt = "1 + 1", OF second]
    by (simp add: r2)
  have tok: "fst (parseInvalidSequenceTokenException err) = Some ''expected sequence token is''"
    by (simp add: parsed)
  have lt: "(1 :: nat) < 3" by simp
  from attempts_retry [where PutLogEvents = PutLogEvents, OF first lt tok two]
    WriteMessageBatch_valid [OF assms(1,2), of String Milliseconds PutLogEvents r] assms(6)
  have "e = None \<and> w' = w\<lparr>token := aws_StringValue (NextSequenceToken out)\<rparr> \<and> r' = r2
      \<and> cs = PutLogEvents_call c (request w ?events ?tok) (Inl err)
           # map Println_call (snd (parseInvalidSequenceTokenException err))
           @ [PutLogEvents_call c (request w ?events (Some ''expected sequence token is''))
                (Inr out)]"
    by simp
  with tok show ?thesis by simp
qed

theorem stale_token_recovery_witness:
  "[example_message] \<noteq> [] \<and> parent example_writer = Some 7
   \<and> Error (awsError fooError) = fooError
   \<and> scripted 7 [Inl (awsError fooError), Inr \<lparr>NextSequenceToken = Some ''T9''\<rparr>]
        (request example_writer [example_event] None)
       = (Inl (awsError fooError), [Inr \<lparr>NextSequenceToken = Some ''T9''\<rparr>])
   \<and> scripted 7 [Inr \<lparr>NextSequenceToken = Some ''T9''\<rparr>]
        (request example_writer [example_event] (Some ''expected sequence token is''))
       = (Inr \<lparr>NextSequenceToken = Some ''T9''\<rparr>, [])
   \<and> WriteMessageBatch example_String example_Milliseconds scripted example_writer
        [example_message] [Inl (awsError fooError), Inr \<lparr>NextSequenceToken = Some ''T9''\<rparr>]
       = (None, example_writer\<lparr>token := ''T9''\<rparr>, [],
          [PutLogEvents_call 7 (request example_writer [example_event] None)
             (Inl (awsError fooError)),
           Println_call (''<<< '' @ fooError @ [CHR 0x0A]),
           Println_call (''>>> expected sequence token is'' @ [CHR 0x0A]),
           PutLogEvents_call 7
             (request example_writer [example_event] (Some ''expected sequence token is''))
             (Inr \<lparr>NextSequenceToken = Some ''T9''\<rparr>)])"
proof -
  let ?script = "[Inl (awsError fooError), Inr \<lparr>NextSequenceToken = Some ''T9''\<rparr>]"
  have b: "[example_message] \<noteq> []" by simp
  have p: "parent example_writer = Some 7" by (simp add: example_writer_def)
  have m: "Error (awsError fooError) = fooError" by simp
  have first: "scripted 7 ?script
      (request example_writer (map (event_of example_String example_Milliseconds) [example_message])
         (if token example_writer = [] then None else Some (token example_writer)))
      = (Inl (awsError fooError), [Inr \<lparr>NextSequenceToken = Some ''T9''\<rparr>])"
    by (simp add: scripted_def)
  have second: "scripted 7 [Inr \<lparr>NextSequenceToken = Some ''T9''\<rparr>]
      (request example_writer (map (event_of example_String example_Milliseconds) [example_message])
         (Some ''expected sequence token is''))
      = (Inr \<lparr>NextSequenceToken = Some ''T9''\<rparr>, [])"
    by (simp add: scripted_def)
  have run: "WriteMessageBatch example_String example_Milliseconds scripted example_writer
        [example_message] ?script
       = (None, example_writer\<lparr>token := ''T9''\<rparr>, [],
          [PutLogEvents_call 7 (request example_writer [example_event] None)
             (Inl (awsError fooError)),
           Println_call (''<<< '' @ fooError @ [CHR 0x0A]),
           Println_call (''>>> expected sequence token is'' @ [CHR 0x0A]),
           PutLogEvents_call 7
             (request example_writer [example_event] (Some ''expected sequence token is''))
             (Inr \<lparr>NextSequenceToken = Some ''T9''\<rparr>)])"
    by (simp add: WriteMessageBatch_def example_event_of attempts.simps [of scripted]
        scripted_def parse_fooError example_writer_def request_def aws_String_def
        aws_StringValue_def Let_def)
  from stale_token_recovery [OF b p m first second run] run
  show ?thesis
    by (simp add: scripted_def example_writer_def)
qed

section \<open>The claims: what the parser and the writer print\<close>





section \<open>The claims: the parser\<close>

lemma parse_examples:
  "HasPrefix aws_rejection ''InvalidSequenceTokenException:''"
  "length (Split (takeWhile (\<lambda>c. c \<noteq> CHR 0x0A) aws_rejection) CHR '':'') = 3"
  "Split (takeWhile (\<lambda>c. c \<noteq> CHR 0x0A) aws_rejection) CHR '':'' ! 2 = '' 49545''"
  "fst (parseInvalidSequenceTokenException (awsError aws_rejection)) = Some ''49545''"
  "HasPrefix two_line_rejection ''InvalidSequenceTokenException:''"
  "length (Split (takeWhile (\<lambda>c. c \<noteq> CHR 0x0A) two_line_rejection) CHR '':'') = 2"
  "fst (parseInvalidSequenceTokenException (awsError two_line_rejection)) = None"
  "\<not> HasPrefix unrelated_error ''InvalidSequenceTokenException:''"
  "fst (parseInvalidSequenceTokenException (awsError unrelated_error)) = None"
  unfolding aws_rejection_def two_line_rejection_def unrelated_error_def
  by code_simp+

text \<open>
  C6. The parser returns no token when the message does not start with
  \<open>InvalidSequenceTokenException:\<close>, and when the first line of the message (the bytes
  before the first line feed) has fewer than 3 parts between its colons, that is fewer
  than 2 colons. Otherwise it returns the third part with the white space around it
  removed by \<open>strings.TrimSpace\<close>; when the part is ASCII this is the part without
  its leading and trailing tabs, line feeds, vertical tabs, form feeds, carriage returns
  and spaces.
\<close>

theorem parser_token:
  "(\<not> HasPrefix (Error err) ''InvalidSequenceTokenException:''
      \<longrightarrow> fst (parseInvalidSequenceTokenException err) = None)
   \<and> (length (Split (takeWhile (\<lambda>c. c \<noteq> CHR 0x0A) (Error err)) CHR '':'') < 3
      \<longrightarrow> fst (parseInvalidSequenceTokenException err) = None)
   \<and> (HasPrefix (Error err) ''InvalidSequenceTokenException:''
        \<and> 3 \<le> length (Split (takeWhile (\<lambda>c. c \<noteq> CHR 0x0A) (Error err)) CHR '':'')
      \<longrightarrow> fst (parseInvalidSequenceTokenException err)
            = Some (TrimSpace (Split (takeWhile (\<lambda>c. c \<noteq> CHR 0x0A) (Error err)) CHR '':'' ! 2)))
   \<and> length (Split (takeWhile (\<lambda>c. c \<noteq> CHR 0x0A) (Error err)) CHR '':'')
       = Suc (length (filter (\<lambda>c. c = CHR '':'') (takeWhile (\<lambda>c. c \<noteq> CHR 0x0A) (Error err))))
   \<and> ((\<forall>c \<in> set part. (of_char c :: nat) < 128)
      \<longrightarrow> TrimSpace part = rev (dropWhile asciiSpace (rev (dropWhile asciiSpace part))))"
proof -
  let ?line = "takeWhile (\<lambda>c. c \<noteq> CHR 0x0A) (Error err)"
  have line: "Split (Error err) (CHR 0x0A) ! 0 = ?line" by (rule Split_first)
  have some: "length (Split (Error err) (CHR 0x0A)) \<noteq> 0"
    using Split_not_Nil [of "Error err" "CHR 0x0A"] by simp
  have tok: "fst (parseInvalidSequenceTokenException err) =
      (if \<not> HasPrefix (Error err) ''InvalidSequenceTokenException:'' then None
       else if length (Split ?line CHR '':'') < 3 then None
       else Some (TrimSpace (Split ?line CHR '':'' ! 2)))"
    using some by (simp add: parseInvalidSequenceTokenException_def Let_def line)
  show ?thesis
    by (simp add: tok length_Split TrimSpace_ascii)
qed

theorem parser_token_witness:
  "HasPrefix aws_rejection ''InvalidSequenceTokenException:''
   \<and> length (Split (takeWhile (\<lambda>c. c \<noteq> CHR 0x0A) aws_rejection) CHR '':'') = 3
   \<and> Split (takeWhile (\<lambda>c. c \<noteq> CHR 0x0A) aws_rejection) CHR '':'' ! 2 = '' 49545''
   \<and> fst (parseInvalidSequenceTokenException (awsError aws_rejection)) = Some ''49545''
   \<and> TrimSpace '' 49545'' = ''49545''
   \<and> HasPrefix two_line_rejection ''InvalidSequenceTokenException:''
   \<and> length (Split (takeWhile (\<lambda>c. c \<noteq> CHR 0x0A) two_line_rejection) CHR '':'') = 2
   \<and> fst (parseInvalidSequenceTokenException (awsError two_line_rejection)) = None
   \<and> \<not> HasPrefix unrelated_error ''InvalidSequenceTokenException:''
   \<and> fst (parseInvalidSequenceTokenException (awsError unrelated_error)) = None"
proof -
  note aws = parser_token [of "awsError aws_rejection" "'' 49545''"]
  note two = parser_token [of "awsError two_line_rejection" "[]"]
  note other = parser_token [of "awsError unrelated_error" "[]"]
  have ascii: "\<forall>c \<in> set '' 49545''. (of_char c :: nat) < 128" by simp
  have trimmed: "rev (dropWhile asciiSpace (rev (dropWhile asciiSpace '' 49545''))) = ''49545''"
    by (simp add: asciiSpace_def)
  from aws ascii trimmed have t: "TrimSpace '' 49545'' = ''49545''" by simp
  from aws have "fst (parseInvalidSequenceTokenException (awsError aws_rejection))
      = Some (TrimSpace '' 49545'')"
    by (simp add: parse_examples)
  moreover from two have "fst (parseInvalidSequenceTokenException (awsError two_line_rejection))
      = None"
    by (simp add: parse_examples)
  moreover from other have "fst (parseInvalidSequenceTokenException (awsError unrelated_error))
      = None"
    by (simp add: parse_examples)
  ultimately show ?thesis by (simp add: parse_examples t)
qed

end
